theory Spec2Isabelle
  imports Main "HOL-Library.Word" "HOL-Library.Sublist"
begin

unbundle bit_operations_syntax

section \<open>Bytes and characters\<close>

text \<open>
  The loader works on \<^verbatim>\<open>char\<close> and \<^verbatim>\<open>unsigned char\<close>; a byte of the file is a
  \<^typ>\<open>char\<close> here (eight bits), a \<^verbatim>\<open>std::string\<close> is a \<^typ>\<open>string\<close>, and
  \<^term>\<open>of_char\<close> is the cast to \<^verbatim>\<open>unsigned char\<close>.
\<close>

definition byte :: "char \<Rightarrow> nat" where
  "byte c = of_char c"

text \<open>
  \<^verbatim>\<open>isspace\<close> in the "C" locale, which is also what \<^verbatim>\<open>operator>>\<close> on a stream with
  the classic locale skips: HT, LF, VT, FF, CR and the space.
\<close>

definition isspace :: "char \<Rightarrow> bool" where
  "isspace c = ((9 \<le> byte c \<and> byte c \<le> 13) \<or> byte c = 32)"

definition isdigit :: "char \<Rightarrow> bool" where
  "isdigit c = (48 \<le> byte c \<and> byte c \<le> 57)"

section \<open>The token normalizer\<close>

text \<open>
  One pass through the body of the \<^verbatim>\<open>while\<close> loop of \<^verbatim>\<open>normalizeToken\<close> on a
  non-empty string: \<open>Some\<close> of the string after the \<^verbatim>\<open>erase\<close> when one of the three
  tests fired (the loop sets \<^verbatim>\<open>changed = true\<close> and continues), \<open>None\<close> when none
  did (\<^verbatim>\<open>changed\<close> stays \<^verbatim>\<open>false\<close>).
\<close>

definition strip_step :: "string \<Rightarrow> string option" where
  "strip_step s =
     (if 3 \<le> length s \<and> byte (s ! 0) = 0xEF \<and> byte (s ! 1) = 0xBB \<and> byte (s ! 2) = 0xBF
      then Some (drop 3 s)
      else if 2 \<le> length s \<and> byte (s ! 0) = 0xC2 \<and> byte (s ! 1) = 0xA0
      then Some (drop 2 s)
      else if byte (s ! 0) \<le> 0x20
      then Some (drop 1 s)
      else None)"

lemma strip_step_shorter: "s \<noteq> [] \<Longrightarrow> strip_step s = Some t \<Longrightarrow> length t < length s"
  by (auto simp: strip_step_def split: if_splits)

text \<open>
  The loop \<^verbatim>\<open>while (changed && !s.empty())\<close>, with the flag and the string as its
  state.
\<close>

function normalize_loop :: "bool \<Rightarrow> string \<Rightarrow> string" where
  "normalize_loop changed s =
     (if changed \<and> s \<noteq> []
      then (case strip_step s of
              Some t \<Rightarrow> normalize_loop True t
            | None \<Rightarrow> normalize_loop False s)
      else s)"
  by pat_completeness auto
termination
  by (relation "measure (\<lambda>(changed, s). 2 * length s + (if changed then 1 else 0))")
     (auto dest: strip_step_shorter)

declare normalize_loop.simps [simp del]

definition normalizeToken :: "string \<Rightarrow> string" where
  "normalizeToken s = normalize_loop True s"

text \<open>The same loop, counting how many times its body runs.\<close>

function normalize_iters :: "bool \<Rightarrow> string \<Rightarrow> nat" where
  "normalize_iters changed s =
     (if changed \<and> s \<noteq> []
      then Suc (case strip_step s of
              Some t \<Rightarrow> normalize_iters True t
            | None \<Rightarrow> normalize_iters False s)
      else 0)"
  by pat_completeness auto
termination
  by (relation "measure (\<lambda>(changed, s). 2 * length s + (if changed then 1 else 0))")
     (auto dest: strip_step_shorter)

declare normalize_iters.simps [simp del]

section \<open>C++ integers and \<^verbatim>\<open>std::stoi\<close>\<close>

text \<open>
  An \<^verbatim>\<open>int\<close> has 32 bits. It is an \<^typ>\<open>int\<close> here, kept in range: \<^verbatim>\<open>std::stoi\<close>
  throws outside the range, and the one multiplication of the loader, \<^verbatim>\<open>r * 255\<close>,
  is written with the two's complement wrap-around of the compiled code (the overflow is
  undefined in C++; the program is built for Windows, where it wraps). Division
  truncates towards zero.
\<close>

definition INT_MAX :: int where
  "INT_MAX = 2147483647"

definition INT_MIN :: int where
  "INT_MIN = - 2147483648"

definition wrap_int32 :: "int \<Rightarrow> int" where
  "wrap_int32 x = (x + 2147483648) mod 4294967296 - 2147483648"

definition mul_int :: "int \<Rightarrow> int \<Rightarrow> int" where
  "mul_int a b = wrap_int32 (a * b)"

definition div_int :: "int \<Rightarrow> int \<Rightarrow> int" where
  "div_int a b = (if (a < 0) = (b < 0) then \<bar>a\<bar> div \<bar>b\<bar> else - (\<bar>a\<bar> div \<bar>b\<bar>))"

text \<open>\<^verbatim>\<open>static_cast<uint64_t>(int) * static_cast<uint64_t>(int)\<close>.\<close>

definition uint64_of_int :: "int \<Rightarrow> nat" where
  "uint64_of_int x = nat (x mod 18446744073709551616)"

definition mul_uint64 :: "nat \<Rightarrow> nat \<Rightarrow> nat" where
  "mul_uint64 a b = (a * b) mod 18446744073709551616"

text \<open>
  \<^verbatim>\<open>std::stoi(str)\<close> with base 10, as the standard defines it through \<^verbatim>\<open>strtol\<close>:
  leading white space is skipped, one sign is optional, then the longest run of decimal
  digits is converted and whatever follows is ignored. No digit: \<^verbatim>\<open>invalid_argument\<close>;
  a value that is not an \<^verbatim>\<open>int\<close>: \<^verbatim>\<open>out_of_range\<close>.
\<close>

datatype stoi_error = invalid_argument | out_of_range

fun digits_value :: "int \<Rightarrow> string \<Rightarrow> int" where
  "digits_value acc [] = acc"
| "digits_value acc (c # cs) = digits_value (10 * acc + (int (byte c) - 48)) cs"

fun strip_sign :: "string \<Rightarrow> bool \<times> string" where
  "strip_sign [] = (False, [])"
| "strip_sign (c # cs) =
     (if c = CHR ''-'' then (True, cs)
      else if c = CHR ''+'' then (False, cs)
      else (False, c # cs))"

definition stoi :: "string \<Rightarrow> stoi_error + int" where
  "stoi str =
     (let (neg, body) = strip_sign (dropWhile isspace str);
          ds = takeWhile isdigit body;
          v = (if neg then - digits_value 0 ds else digits_value 0 ds)
      in if ds = [] then Inl invalid_argument
         else if v < INT_MIN \<or> INT_MAX < v then Inl out_of_range
         else Inr v)"

section \<open>Streams and the two token readers\<close>

text \<open>
  A stream is the list of the bytes not read yet. Its error flags need no field of their
  own: the loader stops at the first read that fails.

  \<^verbatim>\<open>std::getline(s, rest)\<close> reads through the next line feed; the line itself is thrown
  away by both callers, so only the stream after it is kept.
\<close>

definition getline_rest :: "string \<Rightarrow> string" where
  "getline_rest s = drop 1 (dropWhile (\<lambda>c. c \<noteq> CHR 0x0A) s)"

text \<open>
  \<^verbatim>\<open>ss >> out\<close>: skips white space, then reads up to the next white space or the end;
  it fails when nothing but white space is left.
\<close>

definition extract_word :: "string \<Rightarrow> (string \<times> string) option" where
  "extract_word ss =
     (let s = dropWhile isspace ss
      in if s = [] then None
         else Some (takeWhile (\<lambda>c. \<not> isspace c) s, dropWhile (\<lambda>c. \<not> isspace c) s))"

lemma length_getline_rest: "length (getline_rest s) \<le> length s"
  by (simp add: getline_rest_def) (metis diff_le_self le_trans length_dropWhile_le)

lemma extract_word_shorter: "extract_word ss = Some (out, ss') \<Longrightarrow> length ss' < length ss"
proof -
  assume a: "extract_word ss = Some (out, ss')"
  define s where "s = dropWhile isspace ss"
  from a have ne: "s \<noteq> []" and ss': "ss' = dropWhile (\<lambda>c. \<not> isspace c) s"
    by (auto simp: extract_word_def s_def Let_def split: if_splits)
  from ne have "\<not> isspace (hd s)"
    unfolding s_def by (rule hd_dropWhile)
  with ne have "ss' = dropWhile (\<lambda>c. \<not> isspace c) (tl s)"
    unfolding ss' by (cases s) simp_all
  then have "length ss' \<le> length (tl s)"
    by (simp only: length_dropWhile_le)
  also from ne have "\<dots> < length s" by simp
  also have "\<dots> \<le> length ss" unfolding s_def by (rule length_dropWhile_le)
  finally show ?thesis .
qed

text \<open>
  \<^verbatim>\<open>nextTokenStr\<close>, the reader of the in-memory text: \<open>None\<close> is \<^verbatim>\<open>false\<close>,
  \<open>Some (out, ss')\<close> is \<^verbatim>\<open>true\<close> with the token and the stream after it.
\<close>

function nextTokenStr :: "string \<Rightarrow> (string \<times> string) option" where
  "nextTokenStr ss =
     (case extract_word ss of
        None \<Rightarrow> None
      | Some (out, ss') \<Rightarrow>
          if out \<noteq> [] \<and> hd out = CHR ''#''
          then nextTokenStr (getline_rest ss')
          else Some (normalizeToken out, ss'))"
  by pat_completeness auto
termination
proof (relation "measure length", goal_cases)
  case 1
  show ?case by simp
next
  case (2 ss x2 out ss')
  then have "length ss' < length ss"
    by (auto dest: extract_word_shorter)
  with length_getline_rest [of ss'] show ?case by simp
qed

declare nextTokenStr.simps [simp del]

text \<open>
  \<^verbatim>\<open>nextToken\<close>, the reader of the file stream. Its first loop skips white space and
  comment lines (\<open>None\<close>: the end of the file, where it returns \<^verbatim>\<open>false\<close>); its
  second loop appends bytes to \<^verbatim>\<open>out\<close> up to white space, a \<^verbatim>\<open>#\<close> or the end.
\<close>

function skip_space_comments :: "string \<Rightarrow> string option" where
  "skip_space_comments [] = None"
| "skip_space_comments (c # cs) =
     (if isspace c then skip_space_comments cs
      else if c = CHR ''#'' then skip_space_comments (getline_rest (c # cs))
      else Some (c # cs))"
  by pat_completeness auto
termination
proof (relation "measure length", goal_cases)
  case 1
  show ?case by simp
next
  case (2 c cs)
  show ?case by simp
next
  case (3 c cs)
  then have "getline_rest (c # cs) = getline_rest cs"
    by (simp add: getline_rest_def)
  with length_getline_rest [of cs] show ?case by simp
qed

fun read_token :: "string \<Rightarrow> string \<Rightarrow> string \<times> string" where
  "read_token out [] = (out, [])"
| "read_token out (c # cs) =
     (if isspace c \<or> c = CHR ''#'' then (out, c # cs)
      else read_token (out @ [c]) cs)"

definition nextToken :: "string \<Rightarrow> (string \<times> string) option" where
  "nextToken file =
     (case skip_space_comments file of
        None \<Rightarrow> None
      | Some f \<Rightarrow>
          (let (out, f') = read_token [] f
           in if out \<noteq> [] then Some (out, f') else None))"

section \<open>Images and pixels\<close>

text \<open>
  A pixel is a \<^verbatim>\<open>uint32_t\<close> that the loader fills through a \<^verbatim>\<open>uint8_t*\<close>: the record
  holds its four bytes in address order, \<open>byte0\<close> being \<^verbatim>\<open>ptr[0]\<close>.
  \<^verbatim>\<open>resize\<close> fills the buffer with zero pixels; memory is not bounded here, so it
  never fails.
\<close>

record pixel32 =
  byte0 :: "8 word"
  byte1 :: "8 word"
  byte2 :: "8 word"
  byte3 :: "8 word"

record Image =
  width :: int
  height :: int
  pixels :: "pixel32 list"

definition zero_pixel :: pixel32 where
  "zero_pixel = \<lparr>byte0 = 0, byte1 = 0, byte2 = 0, byte3 = 0\<rparr>"

definition new_Image :: Image where
  "new_Image = \<lparr>width = 0, height = 0, pixels = []\<rparr>"

definition to_uint8 :: "int \<Rightarrow> 8 word" where
  "to_uint8 v = word_of_int v"

text \<open>The four stores \<^verbatim>\<open>ptr[0] = b; ptr[1] = g; ptr[2] = r; ptr[3] = 0\<close>.\<close>

definition write_pixel :: "int \<Rightarrow> int \<Rightarrow> int \<Rightarrow> pixel32" where
  "write_pixel r g b = \<lparr>byte0 = to_uint8 b, byte1 = to_uint8 g, byte2 = to_uint8 r, byte3 = 0\<rparr>"

definition rescale :: "int \<Rightarrow> int \<Rightarrow> int" where
  "rescale maxVal v = (if maxVal \<noteq> 255 \<and> maxVal > 0 then div_int (mul_int v 255) maxVal else v)"

definition clamp255 :: "int \<Rightarrow> int" where
  "clamp255 v = min 255 (max 0 v)"

text \<open>
  What a call of the loader does: it returns an image, having printed one message, or an
  exception of \<^verbatim>\<open>std::stoi\<close> leaves it.
\<close>

datatype message =
    CouldNotOpen
  | EmptyOrInvalid
  | NotP3
  | NotP3P6
  | MissingWidth
  | MissingHeight
  | MissingMaxVal
  | MalformedP6Header
  | InvalidWidthHeight
  | InvalidMaxVal
  | InvalidDimensions
  | TooLarge
  | EofBeforePixelData
  | EndOfFilePixels
  | EndOfFileBinaryPixels
  | InvalidPixelToken
  | P3Loaded
  | P6Loaded

datatype outcome = Returns message Image | Throws stoi_error

text \<open>\<^verbatim>\<open>img.pixels.clear(); img.width = img.height = 0\<close>.\<close>

definition cleared :: "Image \<Rightarrow> Image" where
  "cleared img = img\<lparr>pixels := [], width := 0, height := 0\<rparr>"

section \<open>The pixel loops\<close>

text \<open>The loop of the text parser (the stream came with a byte order mark).\<close>

function p3_string_loop :: "nat \<Rightarrow> nat \<Rightarrow> int \<Rightarrow> string \<Rightarrow> Image \<Rightarrow> outcome" where
  "p3_string_loop i pixelCount maxVal ss img =
     (if i < pixelCount then
        (case nextTokenStr ss of
           None \<Rightarrow> Returns EndOfFilePixels (cleared img)
         | Some (sr, ss1) \<Rightarrow>
        (case nextTokenStr ss1 of
           None \<Rightarrow> Returns EndOfFilePixels (cleared img)
         | Some (sg, ss2) \<Rightarrow>
        (case nextTokenStr ss2 of
           None \<Rightarrow> Returns EndOfFilePixels (cleared img)
         | Some (sb, ss3) \<Rightarrow>
        (case stoi (normalizeToken sr) of
           Inl e \<Rightarrow> Throws e
         | Inr r \<Rightarrow>
        (case stoi (normalizeToken sg) of
           Inl e \<Rightarrow> Throws e
         | Inr g \<Rightarrow>
        (case stoi (normalizeToken sb) of
           Inl e \<Rightarrow> Throws e
         | Inr b \<Rightarrow>
             p3_string_loop (i + 1) pixelCount maxVal ss3
               (img\<lparr>pixels := (pixels img)
                  [i := write_pixel (clamp255 (rescale maxVal r)) (clamp255 (rescale maxVal g))
                          (clamp255 (rescale maxVal b))]\<rparr>)))))))
      else Returns P3Loaded img)"
  by pat_completeness auto
termination
  by (relation "measure (\<lambda>(i, pixelCount, maxVal, ss, img). pixelCount - i)") auto

declare p3_string_loop.simps [simp del]

text \<open>The binary loop: \<^verbatim>\<open>file.read(rgb, 3)\<close> fails when fewer than three bytes are left.\<close>

fun read3 :: "string \<Rightarrow> ((char \<times> char \<times> char) \<times> string) option" where
  "read3 (c0 # c1 # c2 # file) = Some ((c0, c1, c2), file)"
| "read3 _ = None"

function p6_loop :: "nat \<Rightarrow> nat \<Rightarrow> int \<Rightarrow> string \<Rightarrow> Image \<Rightarrow> outcome" where
  "p6_loop i pixelCount maxVal file img =
     (if i < pixelCount then
        (case read3 file of
           None \<Rightarrow> Returns EndOfFileBinaryPixels (cleared img)
         | Some ((c0, c1, c2), file') \<Rightarrow>
             p6_loop (i + 1) pixelCount maxVal file'
               (img\<lparr>pixels := (pixels img)
                  [i := write_pixel (rescale maxVal (int (byte c0))) (rescale maxVal (int (byte c1)))
                          (rescale maxVal (int (byte c2)))]\<rparr>))
      else Returns P6Loaded img)"
  by pat_completeness auto
termination
  by (relation "measure (\<lambda>(i, pixelCount, maxVal, file, img). pixelCount - i)") auto

declare p6_loop.simps [simp del]

text \<open>The loop of the file-stream parser for P3; here the three conversions are in a \<^verbatim>\<open>try\<close>.\<close>

function p3_loop :: "nat \<Rightarrow> nat \<Rightarrow> int \<Rightarrow> string \<Rightarrow> Image \<Rightarrow> outcome" where
  "p3_loop i pixelCount2 maxVal2 file img =
     (if i < pixelCount2 then
        (case nextToken file of
           None \<Rightarrow> Returns EndOfFilePixels (cleared img)
         | Some (sr, file1) \<Rightarrow>
        (case nextToken file1 of
           None \<Rightarrow> Returns EndOfFilePixels (cleared img)
         | Some (sg, file2) \<Rightarrow>
        (case nextToken file2 of
           None \<Rightarrow> Returns EndOfFilePixels (cleared img)
         | Some (sb, file3) \<Rightarrow>
        (case stoi sr of
           Inl e \<Rightarrow> Returns InvalidPixelToken (cleared img)
         | Inr r \<Rightarrow>
        (case stoi sg of
           Inl e \<Rightarrow> Returns InvalidPixelToken (cleared img)
         | Inr g \<Rightarrow>
        (case stoi sb of
           Inl e \<Rightarrow> Returns InvalidPixelToken (cleared img)
         | Inr b \<Rightarrow>
             p3_loop (i + 1) pixelCount2 maxVal2 file3
               (img\<lparr>pixels := (pixels img)
                  [i := write_pixel (clamp255 (rescale maxVal2 r)) (clamp255 (rescale maxVal2 g))
                          (clamp255 (rescale maxVal2 b))]\<rparr>)))))))
      else Returns P3Loaded img)"
  by pat_completeness auto
termination
  by (relation "measure (\<lambda>(i, pixelCount2, maxVal2, file, img). pixelCount2 - i)") auto

declare p3_loop.simps [simp del]

section \<open>Encoding detection\<close>

text \<open>
  The first four bytes are read into a zeroed array: a byte the file does not have is 0.
\<close>

definition header_byte :: "string \<Rightarrow> nat \<Rightarrow> nat" where
  "header_byte raw i = (if i < length raw then byte (raw ! i) else 0)"

text \<open>
  The two loops \<^verbatim>\<open>for (i = 2; i + 1 < raw.size(); i += 2)\<close>, on the bytes after the
  mark: a \<^verbatim>\<open>wchar_t\<close> has 16 bits, and an odd last byte is left out.
\<close>

fun utf16le_units :: "string \<Rightarrow> 16 word list" where
  "utf16le_units (c0 # c1 # raw) =
     (word_of_nat (byte c0) OR push_bit 8 (word_of_nat (byte c1))) # utf16le_units raw"
| "utf16le_units _ = []"

fun utf16be_units :: "string \<Rightarrow> 16 word list" where
  "utf16be_units (c0 # c1 # raw) =
     (push_bit 8 (word_of_nat (byte c0)) OR word_of_nat (byte c1)) # utf16be_units raw"
| "utf16be_units _ = []"

text \<open>
  The text handed to the text parser, or \<open>None\<close> when \<^verbatim>\<open>useStringParser\<close> stays
  \<^verbatim>\<open>false\<close>. The conversion of the platform, \<^verbatim>\<open>WideCharToMultiByte(CP_UTF8, ...)\<close>, is
  the parameter \<open>conv\<close>: it gives the bytes written, none when the call reports 0.
  With the UTF-8 mark, \<^verbatim>\<open>std::getline(file, rest, '\0')\<close> reads up to the first zero
  byte.
\<close>

definition decode_text :: "(16 word list \<Rightarrow> string) \<Rightarrow> string \<Rightarrow> string option" where
  "decode_text conv raw =
     (if header_byte raw 0 = 0xFF \<and> header_byte raw 1 = 0xFE then
        (let w = utf16le_units (drop 2 raw)
         in if w \<noteq> [] then (let utf8 = conv w in if 0 < length utf8 then Some utf8 else None)
            else None)
      else if header_byte raw 0 = 0xFE \<and> header_byte raw 1 = 0xFF then
        (let w = utf16be_units (drop 2 raw)
         in if w \<noteq> [] then (let utf8 = conv w in if 0 < length utf8 then Some utf8 else None)
            else None)
      else if header_byte raw 0 = 0xEF \<and> header_byte raw 1 = 0xBB \<and> header_byte raw 2 = 0xBF then
        (let rest = takeWhile (\<lambda>c. c \<noteq> CHR 0x00) raw
         in Some (if 3 \<le> length rest then drop 3 rest else rest))
      else None)"

section \<open>The loader\<close>

text \<open>The text parser: the branch \<^verbatim>\<open>if (useStringParser)\<close>.\<close>

definition load_text :: "string \<Rightarrow> outcome" where
  "load_text ss =
     (case nextTokenStr ss of
        None \<Rightarrow> Returns EmptyOrInvalid new_Image
      | Some (token, ss1) \<Rightarrow>
          if normalizeToken token \<noteq> ''P3'' then Returns NotP3 new_Image
          else
     (case nextTokenStr ss1 of
        None \<Rightarrow> Returns MissingWidth new_Image
      | Some (wtoken, ss2) \<Rightarrow>
     (case nextTokenStr ss2 of
        None \<Rightarrow> Returns MissingHeight new_Image
      | Some (htoken, ss3) \<Rightarrow>
     (case nextTokenStr ss3 of
        None \<Rightarrow> Returns MissingMaxVal new_Image
      | Some (mtoken, ss4) \<Rightarrow>
     (case stoi (normalizeToken wtoken) of
        Inl e \<Rightarrow> Returns InvalidWidthHeight new_Image
      | Inr w \<Rightarrow>
     (case stoi (normalizeToken htoken) of
        Inl e \<Rightarrow> Returns InvalidWidthHeight (new_Image\<lparr>width := w\<rparr>)
      | Inr h \<Rightarrow>
     (case stoi (normalizeToken mtoken) of
        Inl e \<Rightarrow> Returns InvalidMaxVal (new_Image\<lparr>width := w, height := h\<rparr>)
      | Inr maxVal \<Rightarrow>
          let img = new_Image\<lparr>width := w, height := h\<rparr> in
          if w \<le> 0 \<or> h \<le> 0 then Returns InvalidDimensions img
          else
            let pixelCount = mul_uint64 (uint64_of_int w) (uint64_of_int h) in
            if pixelCount = 0 \<or> pixelCount > 100000000 then Returns TooLarge img
            else p3_string_loop 0 pixelCount maxVal ss4
                   (img\<lparr>pixels := replicate pixelCount zero_pixel\<rparr>))))))))"

text \<open>The binary parser: the branch \<^verbatim>\<open>if (token == "P6")\<close>, on the stream after the magic.\<close>

definition load_p6 :: "string \<Rightarrow> outcome" where
  "load_p6 file =
     (case nextToken file of
        None \<Rightarrow> Returns MalformedP6Header new_Image
      | Some (wstr, file1) \<Rightarrow>
     (case nextToken file1 of
        None \<Rightarrow> Returns MalformedP6Header new_Image
      | Some (hstr, file2) \<Rightarrow>
     (case nextToken file2 of
        None \<Rightarrow> Returns MalformedP6Header new_Image
      | Some (mstr, file3) \<Rightarrow>
     (case stoi (normalizeToken wstr) of
        Inl e \<Rightarrow> Returns InvalidWidthHeight new_Image
      | Inr w \<Rightarrow>
     (case stoi (normalizeToken hstr) of
        Inl e \<Rightarrow> Returns InvalidWidthHeight (new_Image\<lparr>width := w\<rparr>)
      | Inr h \<Rightarrow>
     (case stoi (normalizeToken mstr) of
        Inl e \<Rightarrow> Returns InvalidMaxVal (new_Image\<lparr>width := w, height := h\<rparr>)
      | Inr maxVal \<Rightarrow>
          let img = new_Image\<lparr>width := w, height := h\<rparr> in
          if w \<le> 0 \<or> h \<le> 0 then Returns InvalidDimensions img
          else
            let pixelCount = mul_uint64 (uint64_of_int w) (uint64_of_int h) in
            if pixelCount = 0 \<or> pixelCount > 100000000 then Returns TooLarge img
            else
              (case file3 of
                 [] \<Rightarrow> Returns EofBeforePixelData img
               | sep # file4 \<Rightarrow>
                   p6_loop 0 pixelCount maxVal file4
                     (img\<lparr>pixels := replicate pixelCount zero_pixel\<rparr>))))))))"

text \<open>The P3 parser of the file stream, on the stream after the magic.\<close>

definition load_p3 :: "string \<Rightarrow> outcome" where
  "load_p3 file =
     (case nextToken file of
        None \<Rightarrow> Returns MissingWidth new_Image
      | Some (wtoken, file1) \<Rightarrow>
     (case nextToken file1 of
        None \<Rightarrow> Returns MissingHeight new_Image
      | Some (htoken, file2) \<Rightarrow>
     (case nextToken file2 of
        None \<Rightarrow> Returns MissingMaxVal new_Image
      | Some (mtoken, file3) \<Rightarrow>
     (case stoi (normalizeToken wtoken) of
        Inl e \<Rightarrow> Returns InvalidWidthHeight new_Image
      | Inr w \<Rightarrow>
     (case stoi (normalizeToken htoken) of
        Inl e \<Rightarrow> Returns InvalidWidthHeight (new_Image\<lparr>width := w\<rparr>)
      | Inr h \<Rightarrow>
     (case stoi (normalizeToken mtoken) of
        Inl e \<Rightarrow> Returns InvalidMaxVal (new_Image\<lparr>width := w, height := h\<rparr>)
      | Inr maxVal2 \<Rightarrow>
          let img = new_Image\<lparr>width := w, height := h\<rparr> in
          if w \<le> 0 \<or> h \<le> 0 then Returns InvalidDimensions (img\<lparr>width := 0, height := 0\<rparr>)
          else
            let pixelCount2 = mul_uint64 (uint64_of_int w) (uint64_of_int h) in
            if pixelCount2 = 0 \<or> pixelCount2 > 100000000
            then Returns TooLarge (img\<lparr>width := 0, height := 0\<rparr>)
            else p3_loop 0 pixelCount2 maxVal2 file3
                   (img\<lparr>pixels := replicate pixelCount2 zero_pixel\<rparr>)))))))"

text \<open>
  The file-stream parser: the stream is rewound, the magic is read and normalized, and a
  UTF-8 mark still in front of it is cut off.
\<close>

definition strip_bom :: "string \<Rightarrow> string" where
  "strip_bom token =
     (if 3 \<le> length token \<and> byte (token ! 0) = 0xEF \<and> byte (token ! 1) = 0xBB
         \<and> byte (token ! 2) = 0xBF
      then drop 3 token else token)"

definition load_file :: "string \<Rightarrow> outcome" where
  "load_file file =
     (case nextToken file of
        None \<Rightarrow> Returns EmptyOrInvalid new_Image
      | Some (token, file1) \<Rightarrow>
          let token = strip_bom (normalizeToken token) in
          if token = ''P6'' then load_p6 file1
          else if token \<noteq> ''P3'' then Returns NotP3P6 new_Image
          else load_p3 file1)"

text \<open>
  \<^verbatim>\<open>LoadPPM\<close>: \<open>None\<close> is a file that cannot be opened, \<open>Some raw\<close> a file with
  the bytes \<open>raw\<close>.
\<close>

definition LoadPPM :: "(16 word list \<Rightarrow> string) \<Rightarrow> string option \<Rightarrow> outcome" where
  "LoadPPM conv f =
     (case f of
        None \<Rightarrow> Returns CouldNotOpen new_Image
      | Some raw \<Rightarrow>
          (case decode_text conv raw of
             Some text \<Rightarrow> load_text text
           | None \<Rightarrow> load_file raw))"

text \<open>
  The conversion of the platform for well-formed and ill-formed UTF-16, after its
  documentation (a surrogate without its partner becomes U+FFFD); the examples use it.
\<close>

definition utf8_bytes :: "nat \<Rightarrow> string" where
  "utf8_bytes cp =
     (if cp < 0x80 then [char_of cp]
      else if cp < 0x800 then [char_of (0xC0 + cp div 64), char_of (0x80 + cp mod 64)]
      else if cp < 0x10000 then
        [char_of (0xE0 + cp div 4096), char_of (0x80 + cp div 64 mod 64), char_of (0x80 + cp mod 64)]
      else
        [char_of (0xF0 + cp div 262144), char_of (0x80 + cp div 4096 mod 64),
         char_of (0x80 + cp div 64 mod 64), char_of (0x80 + cp mod 64)])"

definition high_surrogate :: "16 word \<Rightarrow> bool" where
  "high_surrogate u = (0xD800 \<le> unat u \<and> unat u < 0xDC00)"

definition low_surrogate :: "16 word \<Rightarrow> bool" where
  "low_surrogate u = (0xDC00 \<le> unat u \<and> unat u < 0xE000)"

fun WideCharToMultiByte :: "16 word list \<Rightarrow> string" where
  "WideCharToMultiByte [] = []"
| "WideCharToMultiByte (u # w) =
     (if high_surrogate u then
        (case w of
           [] \<Rightarrow> utf8_bytes 0xFFFD
         | v # w' \<Rightarrow>
             if low_surrogate v
             then utf8_bytes (0x10000 + (unat u - 0xD800) * 1024 + (unat v - 0xDC00))
                    @ WideCharToMultiByte w'
             else utf8_bytes 0xFFFD @ WideCharToMultiByte w)
      else if low_surrogate u then utf8_bytes 0xFFFD @ WideCharToMultiByte w
      else utf8_bytes (unat u) @ WideCharToMultiByte w)"

section \<open>The tokens a pixel loop reads\<close>

text \<open>
  The first \<open>n\<close> tokens the reader of the file stream, or the reader of the text, gives
  from a stream on: the tokens a P3 loop reads, in order, three for each pixel.
\<close>

fun file_tokens :: "nat \<Rightarrow> string \<Rightarrow> string list" where
  "file_tokens 0 f = []"
| "file_tokens (Suc n) f =
     (case nextToken f of None \<Rightarrow> [] | Some (tok, f') \<Rightarrow> tok # file_tokens n f')"

fun text_tokens :: "nat \<Rightarrow> string \<Rightarrow> string list" where
  "text_tokens 0 ss = []"
| "text_tokens (Suc n) ss =
     (case nextTokenStr ss of None \<Rightarrow> [] | Some (tok, ss') \<Rightarrow> tok # text_tokens n ss')"

section \<open>Decimal numerals\<close>




section \<open>Properties of the normalizer\<close>

lemma normalize_loop_stop: "\<not> (changed \<and> s \<noteq> []) \<Longrightarrow> normalize_loop changed s = s"
  by (subst normalize_loop.simps) auto

lemma normalize_loop_Some:
  "s \<noteq> [] \<Longrightarrow> strip_step s = Some t \<Longrightarrow> normalize_loop True s = normalize_loop True t"
  by (subst normalize_loop.simps) simp

lemma normalize_loop_None: "s \<noteq> [] \<Longrightarrow> strip_step s = None \<Longrightarrow> normalize_loop True s = s"
  by (subst normalize_loop.simps) (simp add: normalize_loop_stop)

lemma normalize_iters_stop: "\<not> (changed \<and> s \<noteq> []) \<Longrightarrow> normalize_iters changed s = 0"
  by (subst normalize_iters.simps) auto

lemma normalize_iters_Some:
  "s \<noteq> [] \<Longrightarrow> strip_step s = Some t \<Longrightarrow> normalize_iters True s = Suc (normalize_iters True t)"
  by (subst normalize_iters.simps) simp

lemma normalize_iters_None: "s \<noteq> [] \<Longrightarrow> strip_step s = None \<Longrightarrow> normalize_iters True s = 1"
  by (subst normalize_iters.simps) (simp add: normalize_iters_stop)

lemma strip_step_suffix: "strip_step s = Some t \<Longrightarrow> suffix t s"
  by (auto simp: strip_step_def suffix_drop split: if_splits)

lemma normalize_loop_suffix: "suffix (normalize_loop changed s) s"
proof (induction changed s rule: normalize_loop.induct)
  case (1 changed s)
  show ?case
  proof (cases "changed \<and> s \<noteq> []")
    case False
    then show ?thesis by (simp add: normalize_loop_stop)
  next
    case True
    then have c: "changed = True" and ne: "s \<noteq> []" by simp_all
    show ?thesis
    proof (cases "strip_step s")
      case None
      with ne show ?thesis unfolding c by (simp add: normalize_loop_None)
    next
      case (Some t)
      from "1.IH"(2) [OF True Some] have "suffix (normalize_loop True t) t" .
      with strip_step_suffix [OF Some] have "suffix (normalize_loop True t) s"
        by (rule suffix_order.trans [rotated])
      with ne Some show ?thesis unfolding c by (simp add: normalize_loop_Some)
    qed
  qed
qed

lemma normalize_iters_bound: "normalize_iters changed s \<le> length s"
proof (induction changed s rule: normalize_iters.induct)
  case (1 changed s)
  show ?case
  proof (cases "changed \<and> s \<noteq> []")
    case False
    then show ?thesis by (simp add: normalize_iters_stop)
  next
    case True
    then have c: "changed = True" and ne: "s \<noteq> []" by simp_all
    show ?thesis
    proof (cases "strip_step s")
      case None
      with ne show ?thesis unfolding c by (simp add: normalize_iters_None Suc_le_eq)
    next
      case (Some t)
      from "1.IH"(2) [OF True Some] have "normalize_iters True t \<le> length t" .
      moreover from ne Some have "length t < length s"
        by (rule strip_step_shorter)
      ultimately show ?thesis using ne Some unfolding c by (simp add: normalize_iters_Some)
    qed
  qed
qed

text \<open>
  C10. The token normalizer terminates on every string (\<^const>\<open>normalize_loop\<close> is a
  total function, its termination proved above by a measure that every pass lowers).
  A pass through its loop body on a non-empty token either erases at least one byte from
  the front (what is left is a proper suffix) or changes nothing, and then the loop
  exits with the token as it is; the body runs at most as many times as the token has
  bytes; and the result is a suffix of the input.
\<close>

theorem normalizeToken_terminates_suffix:
  "suffix (normalizeToken s) s
   \<and> normalize_iters True s \<le> length s
   \<and> (s \<noteq> [] \<longrightarrow>
        (case strip_step s of
           Some t \<Rightarrow> length t < length s \<and> suffix t s
             \<and> normalize_loop True s = normalize_loop True t
         | None \<Rightarrow> normalize_loop True s = s \<and> normalize_iters True s = 1))"
proof (intro conjI impI)
  show "suffix (normalizeToken s) s"
    by (simp add: normalizeToken_def normalize_loop_suffix)
  show "normalize_iters True s \<le> length s"
    by (rule normalize_iters_bound)
  assume ne: "s \<noteq> []"
  show "case strip_step s of
           Some t \<Rightarrow> length t < length s \<and> suffix t s
             \<and> normalize_loop True s = normalize_loop True t
         | None \<Rightarrow> normalize_loop True s = s \<and> normalize_iters True s = 1"
  proof (cases "strip_step s")
    case None
    with ne show ?thesis
      by (simp add: normalize_loop_None normalize_iters_None)
  next
    case (Some t)
    with ne show ?thesis
      by (simp add: normalize_loop_Some strip_step_shorter strip_step_suffix)
  qed
qed

theorem normalizeToken_terminates_suffix_witness:
  "[CHR 0xEF, CHR 0xBB, CHR 0xBF, CHR '' '', CHR ''P'', CHR ''3''] \<noteq> []
   \<and> strip_step [CHR 0xEF, CHR 0xBB, CHR 0xBF, CHR '' '', CHR ''P'', CHR ''3''] = Some '' P3''
   \<and> length '' P3'' < length [CHR 0xEF, CHR 0xBB, CHR 0xBF, CHR '' '', CHR ''P'', CHR ''3'']
   \<and> suffix '' P3'' [CHR 0xEF, CHR 0xBB, CHR 0xBF, CHR '' '', CHR ''P'', CHR ''3'']
   \<and> normalizeToken [CHR 0xEF, CHR 0xBB, CHR 0xBF, CHR '' '', CHR ''P'', CHR ''3''] = ''P3''
   \<and> suffix ''P3'' [CHR 0xEF, CHR 0xBB, CHR 0xBF, CHR '' '', CHR ''P'', CHR ''3'']
   \<and> normalize_iters True [CHR 0xEF, CHR 0xBB, CHR 0xBF, CHR '' '', CHR ''P'', CHR ''3''] = 3
   \<and> normalize_iters True [CHR 0xEF, CHR 0xBB, CHR 0xBF, CHR '' '', CHR ''P'', CHR ''3'']
       \<le> length [CHR 0xEF, CHR 0xBB, CHR 0xBF, CHR '' '', CHR ''P'', CHR ''3'']"
proof -
  have step: "strip_step [CHR 0xEF, CHR 0xBB, CHR 0xBF, CHR '' '', CHR ''P'', CHR ''3''] = Some '' P3''"
    by (simp add: strip_step_def byte_def)
  have norm: "normalizeToken [CHR 0xEF, CHR 0xBB, CHR 0xBF, CHR '' '', CHR ''P'', CHR ''3''] = ''P3''"
    by (simp add: normalizeToken_def normalize_loop.simps strip_step_def byte_def)
  have iters: "normalize_iters True [CHR 0xEF, CHR 0xBB, CHR 0xBF, CHR '' '', CHR ''P'', CHR ''3''] = 3"
    by (simp add: normalize_iters.simps strip_step_def byte_def)
  from normalizeToken_terminates_suffix
         [of "[CHR 0xEF, CHR 0xBB, CHR 0xBF, CHR '' '', CHR ''P'', CHR ''3'']"]
  show ?thesis
    unfolding step norm iters by simp
qed

section \<open>Running the loader on given bytes\<close>

text \<open>The equations that evaluate the readers, the conversions and the loader.\<close>

lemmas token_eval =
  nextToken_def nextTokenStr.simps extract_word_def getline_rest_def normalizeToken_def
  normalize_loop.simps strip_step_def strip_bom_def isspace_def byte_def Let_def

lemmas stoi_eval = stoi_def isdigit_def isspace_def byte_def INT_MAX_def INT_MIN_def Let_def

lemmas pixel_eval =
  write_pixel_def to_uint8_def rescale_def clamp255_def mul_int_def div_int_def wrap_int32_def
  new_Image_def zero_pixel_def cleared_def mul_uint64_def uint64_of_int_def

lemmas loader_eval =
  LoadPPM_def decode_text_def header_byte_def load_file_def load_p3_def load_p6_def load_text_def
  p3_loop.simps p6_loop.simps p3_string_loop.simps token_eval stoi_eval pixel_eval

section \<open>Numeric prefixes\<close>












section \<open>The text handed to the text parser\<close>

lemma decode_text_utf8:
  "decode_text conv (CHR 0xEF # CHR 0xBB # CHR 0xBF # xs) = Some (takeWhile (\<lambda>c. c \<noteq> CHR 0x00) xs)"
  by (simp add: decode_text_def header_byte_def byte_def Let_def)

text \<open>
  C9. For a stream that begins with the UTF-8 mark EF BB BF, the text parser is given
  the bytes after the mark up to, and without, the first zero byte: what stands after
  that byte changes nothing in the result. A P3 document whose pixel data lies after a
  zero byte therefore ends as truncated (the message for an unexpected end of file while
  reading pixels), although the bytes are in the stream.
\<close>

theorem utf8_text_stops_at_nul:
  "LoadPPM conv (Some (CHR 0xEF # CHR 0xBB # CHR 0xBF # xs @ CHR 0x00 # ys))
     = load_text (takeWhile (\<lambda>c. c \<noteq> CHR 0x00) xs)
   \<and> LoadPPM conv (Some (CHR 0xEF # CHR 0xBB # CHR 0xBF # xs @ CHR 0x00 # ys))
     = LoadPPM conv (Some (CHR 0xEF # CHR 0xBB # CHR 0xBF # xs))"
  by (simp add: LoadPPM_def decode_text_utf8 takeWhile_tail)

theorem utf8_text_stops_at_nul_witness:
  "LoadPPM WideCharToMultiByte
     (Some (CHR 0xEF # CHR 0xBB # CHR 0xBF # ''P3\<newline>1 1\<newline>255\<newline>'' @ CHR 0x00 # ''7 8 9\<newline>''))
     = Returns EndOfFilePixels \<lparr>width = 0, height = 0, pixels = []\<rparr>
   \<and> LoadPPM WideCharToMultiByte
     (Some (CHR 0xEF # CHR 0xBB # CHR 0xBF # ''P3\<newline>1 1\<newline>255\<newline>'' @ ''7 8 9\<newline>''))
     = Returns P3Loaded
         \<lparr>width = 1, height = 1, pixels = [\<lparr>byte0 = 9, byte1 = 8, byte2 = 7, byte3 = 0\<rparr>]\<rparr>"
proof -
  have "load_text (takeWhile (\<lambda>c. c \<noteq> CHR 0x00) ''P3\<newline>1 1\<newline>255\<newline>'')
          = Returns EndOfFilePixels \<lparr>width = 0, height = 0, pixels = []\<rparr>"
    by (simp add: load_text_def p3_string_loop.simps token_eval stoi_eval pixel_eval)
  moreover have "LoadPPM WideCharToMultiByte
     (Some (CHR 0xEF # CHR 0xBB # CHR 0xBF # ''P3\<newline>1 1\<newline>255\<newline>'' @ ''7 8 9\<newline>''))
     = Returns P3Loaded
         \<lparr>width = 1, height = 1, pixels = [\<lparr>byte0 = 9, byte1 = 8, byte2 = 7, byte3 = 0\<rparr>]\<rparr>"
    by (simp add: loader_eval)
  ultimately show ?thesis
    using utf8_text_stops_at_nul [of WideCharToMultiByte "''P3\<newline>1 1\<newline>255\<newline>''" "''7 8 9\<newline>''"]
    by simp
qed

section \<open>The magic number on each parser\<close>

lemma p3_string_loop_message:
  "p3_string_loop i n m ss img = Returns msg img' \<Longrightarrow> msg = P3Loaded \<or> msg = EndOfFilePixels"
proof (induction i n m ss img rule: p3_string_loop.induct)
  case (1 i pixelCount maxVal ss img)
  from "1.prems" "1.IH" show ?case
    by (subst (asm) p3_string_loop.simps)
       (auto split: if_splits option.splits sum.splits prod.splits)
qed

lemma p6_loop_message:
  "p6_loop i n m f img = Returns msg img' \<Longrightarrow> msg = P6Loaded \<or> msg = EndOfFileBinaryPixels"
proof (induction i n m f img rule: p6_loop.induct)
  case (1 i pixelCount maxVal f img)
  from "1.prems" "1.IH" show ?case
    by (subst (asm) p6_loop.simps)
       (auto split: if_splits option.splits sum.splits prod.splits)
qed

lemma p3_loop_message:
  "p3_loop i n m f img = Returns msg img' \<Longrightarrow>
     msg = P3Loaded \<or> msg = EndOfFilePixels \<or> msg = InvalidPixelToken"
proof (induction i n m f img rule: p3_loop.induct)
  case (1 i pixelCount maxVal f img)
  from "1.prems" "1.IH" show ?case
    by (subst (asm) p3_loop.simps)
       (auto split: if_splits option.splits sum.splits prod.splits)
qed

lemma load_text_NotP3:
  "load_text ss = Returns NotP3 img \<Longrightarrow>
     \<exists>tok rest. nextTokenStr ss = Some (tok, rest) \<and> normalizeToken tok \<noteq> ''P3''"
  by (auto simp: load_text_def Let_def dest: p3_string_loop_message
      split: option.splits sum.splits if_splits prod.splits)

lemma load_p6_not_NotP3P6: "load_p6 file \<noteq> Returns NotP3P6 img"
  by (auto simp: load_p6_def Let_def dest: p6_loop_message
      split: option.splits sum.splits if_splits prod.splits list.splits)

lemma load_p3_not_NotP3P6: "load_p3 file \<noteq> Returns NotP3P6 img"
  by (auto simp: load_p3_def Let_def dest: p3_loop_message
      split: option.splits sum.splits if_splits prod.splits)

lemma load_text_not_P6Loaded: "load_text ss \<noteq> Returns P6Loaded img"
  by (auto simp: load_text_def Let_def dest: p3_string_loop_message
      split: option.splits sum.splits if_splits prod.splits)

text \<open>
  C3, as the code has it. When the stream is unwrapped to text (a byte order mark was
  found and the conversion gave text), the magic is accepted exactly when it is
  \<^verbatim>\<open>P3\<close>: any other magic, \<^verbatim>\<open>P6\<close> included, returns the empty image with the
  message of the text parser, and no such stream ever loads as a binary image. On the
  file-stream parser (no mark) both \<^verbatim>\<open>P6\<close> and \<^verbatim>\<open>P3\<close> are accepted and lead to the
  binary and the ASCII parser, and any other magic returns the empty image.
\<close>

theorem magic_accepted_by_parser:
  "(decode_text conv raw = Some text \<and> nextTokenStr text = Some (tok, rest) \<longrightarrow>
      (normalizeToken tok \<noteq> ''P3'' \<longrightarrow> LoadPPM conv (Some raw) = Returns NotP3 new_Image)
    \<and> (normalizeToken tok = ''P3'' \<longrightarrow> (\<forall>img. LoadPPM conv (Some raw) \<noteq> Returns NotP3 img))
    \<and> (\<forall>img. LoadPPM conv (Some raw) \<noteq> Returns P6Loaded img))
   \<and> (decode_text conv raw = None \<and> nextToken raw = Some (tok, rest) \<longrightarrow>
      (strip_bom (normalizeToken tok) = ''P6'' \<longrightarrow> LoadPPM conv (Some raw) = load_p6 rest)
    \<and> (strip_bom (normalizeToken tok) = ''P3'' \<longrightarrow> LoadPPM conv (Some raw) = load_p3 rest)
    \<and> (strip_bom (normalizeToken tok) \<noteq> ''P6'' \<and> strip_bom (normalizeToken tok) \<noteq> ''P3'' \<longrightarrow>
          LoadPPM conv (Some raw) = Returns NotP3P6 new_Image)
    \<and> (strip_bom (normalizeToken tok) = ''P6'' \<or> strip_bom (normalizeToken tok) = ''P3'' \<longrightarrow>
          (\<forall>img. LoadPPM conv (Some raw) \<noteq> Returns NotP3P6 img)))"
proof (intro conjI impI allI)
  assume a: "decode_text conv raw = Some text \<and> nextTokenStr text = Some (tok, rest)"
  then have L: "LoadPPM conv (Some raw) = load_text text"
    by (simp add: LoadPPM_def)
  { assume "normalizeToken tok \<noteq> ''P3''"
    with a show "LoadPPM conv (Some raw) = Returns NotP3 new_Image"
      unfolding L by (simp add: load_text_def) }
  { fix img
    assume p3: "normalizeToken tok = ''P3''"
    show "LoadPPM conv (Some raw) \<noteq> Returns NotP3 img"
    proof
      assume "LoadPPM conv (Some raw) = Returns NotP3 img"
      then have "load_text text = Returns NotP3 img" by (simp only: L)
      from load_text_NotP3 [OF this] a p3 show False by auto
    qed }
  { fix img
    show "LoadPPM conv (Some raw) \<noteq> Returns P6Loaded img"
      unfolding L by (rule load_text_not_P6Loaded) }
next
  assume a: "decode_text conv raw = None \<and> nextToken raw = Some (tok, rest)"
  then have L: "LoadPPM conv (Some raw) = load_file raw"
    by (simp add: LoadPPM_def)
  { assume "strip_bom (normalizeToken tok) = ''P6''"
    with a show "LoadPPM conv (Some raw) = load_p6 rest"
      unfolding L by (simp add: load_file_def) }
  { assume "strip_bom (normalizeToken tok) = ''P3''"
    with a show "LoadPPM conv (Some raw) = load_p3 rest"
      unfolding L by (simp add: load_file_def) }
  { assume "strip_bom (normalizeToken tok) \<noteq> ''P6'' \<and> strip_bom (normalizeToken tok) \<noteq> ''P3''"
    with a show "LoadPPM conv (Some raw) = Returns NotP3P6 new_Image"
      unfolding L by (simp add: load_file_def) }
  { fix img
    assume "strip_bom (normalizeToken tok) = ''P6'' \<or> strip_bom (normalizeToken tok) = ''P3''"
    with a show "LoadPPM conv (Some raw) \<noteq> Returns NotP3P6 img"
      unfolding L by (auto simp: load_file_def load_p6_not_NotP3P6 load_p3_not_NotP3P6) }
qed

theorem magic_accepted_by_parser_witness:
  "decode_text WideCharToMultiByte
      (CHR 0xEF # CHR 0xBB # CHR 0xBF # ''P6\<newline>1 1\<newline>255\<newline>'' @ [CHR 0xC8, CHR 0x01, CHR 0x02])
     = Some (''P6\<newline>1 1\<newline>255\<newline>'' @ [CHR 0xC8, CHR 0x01, CHR 0x02])
   \<and> nextTokenStr (''P6\<newline>1 1\<newline>255\<newline>'' @ [CHR 0xC8, CHR 0x01, CHR 0x02])
     = Some (''P6'', ''\<newline>1 1\<newline>255\<newline>'' @ [CHR 0xC8, CHR 0x01, CHR 0x02])
   \<and> normalizeToken ''P6'' \<noteq> ''P3''
   \<and> LoadPPM WideCharToMultiByte
        (Some (CHR 0xEF # CHR 0xBB # CHR 0xBF # ''P6\<newline>1 1\<newline>255\<newline>'' @ [CHR 0xC8, CHR 0x01, CHR 0x02]))
     = Returns NotP3 new_Image
   \<and> decode_text WideCharToMultiByte (''P6\<newline>1 1\<newline>255\<newline>'' @ [CHR 0xC8, CHR 0x01, CHR 0x02]) = None
   \<and> nextToken (''P6\<newline>1 1\<newline>255\<newline>'' @ [CHR 0xC8, CHR 0x01, CHR 0x02])
     = Some (''P6'', ''\<newline>1 1\<newline>255\<newline>'' @ [CHR 0xC8, CHR 0x01, CHR 0x02])
   \<and> strip_bom (normalizeToken ''P6'') = ''P6''
   \<and> LoadPPM WideCharToMultiByte (Some (''P6\<newline>1 1\<newline>255\<newline>'' @ [CHR 0xC8, CHR 0x01, CHR 0x02]))
     = load_p6 (''\<newline>1 1\<newline>255\<newline>'' @ [CHR 0xC8, CHR 0x01, CHR 0x02])
   \<and> load_p6 (''\<newline>1 1\<newline>255\<newline>'' @ [CHR 0xC8, CHR 0x01, CHR 0x02])
     = Returns P6Loaded
         \<lparr>width = 1, height = 1, pixels = [\<lparr>byte0 = 2, byte1 = 1, byte2 = 200, byte3 = 0\<rparr>]\<rparr>"
proof -
  have d1: "decode_text WideCharToMultiByte
      (CHR 0xEF # CHR 0xBB # CHR 0xBF # ''P6\<newline>1 1\<newline>255\<newline>'' @ [CHR 0xC8, CHR 0x01, CHR 0x02])
     = Some (''P6\<newline>1 1\<newline>255\<newline>'' @ [CHR 0xC8, CHR 0x01, CHR 0x02])"
    by (simp add: decode_text_utf8)
  have t1: "nextTokenStr (''P6\<newline>1 1\<newline>255\<newline>'' @ [CHR 0xC8, CHR 0x01, CHR 0x02])
     = Some (''P6'', ''\<newline>1 1\<newline>255\<newline>'' @ [CHR 0xC8, CHR 0x01, CHR 0x02])"
    by (simp add: token_eval)
  have n: "normalizeToken ''P6'' = ''P6''"
    by (simp add: token_eval)
  have d2: "decode_text WideCharToMultiByte (''P6\<newline>1 1\<newline>255\<newline>'' @ [CHR 0xC8, CHR 0x01, CHR 0x02]) = None"
    by (simp add: decode_text_def header_byte_def byte_def)
  have t2: "nextToken (''P6\<newline>1 1\<newline>255\<newline>'' @ [CHR 0xC8, CHR 0x01, CHR 0x02])
     = Some (''P6'', ''\<newline>1 1\<newline>255\<newline>'' @ [CHR 0xC8, CHR 0x01, CHR 0x02])"
    by (simp add: token_eval)
  have l: "load_p6 (''\<newline>1 1\<newline>255\<newline>'' @ [CHR 0xC8, CHR 0x01, CHR 0x02])
     = Returns P6Loaded
         \<lparr>width = 1, height = 1, pixels = [\<lparr>byte0 = 2, byte1 = 1, byte2 = 200, byte3 = 0\<rparr>]\<rparr>"
    by (simp add: load_p6_def p6_loop.simps token_eval stoi_eval pixel_eval)
  from magic_accepted_by_parser
         [of WideCharToMultiByte
             "CHR 0xEF # CHR 0xBB # CHR 0xBF # ''P6\<newline>1 1\<newline>255\<newline>'' @ [CHR 0xC8, CHR 0x01, CHR 0x02]"
             "''P6\<newline>1 1\<newline>255\<newline>'' @ [CHR 0xC8, CHR 0x01, CHR 0x02]"
             "''P6''" "''\<newline>1 1\<newline>255\<newline>'' @ [CHR 0xC8, CHR 0x01, CHR 0x02]"]
       magic_accepted_by_parser
         [of WideCharToMultiByte
             "''P6\<newline>1 1\<newline>255\<newline>'' @ [CHR 0xC8, CHR 0x01, CHR 0x02]"
             "[]" "''P6''" "''\<newline>1 1\<newline>255\<newline>'' @ [CHR 0xC8, CHR 0x01, CHR 0x02]"]
  show ?thesis
    unfolding d1 t1 d2 t2 l n by (simp add: strip_bom_def)
qed

text \<open>
  The claim as the specification words it fails: the same binary document that loads
  from the bare bytes is refused behind the UTF-8 mark and behind either UTF-16 mark,
  with the message that only \<^verbatim>\<open>P3\<close> is expected there.
\<close>

theorem text_parser_rejects_P6:
  "LoadPPM WideCharToMultiByte
     (Some (''P6\<newline>1 1\<newline>255\<newline>'' @ [CHR 0xC8, CHR 0x01, CHR 0x02]))
     = Returns P6Loaded
         \<lparr>width = 1, height = 1, pixels = [\<lparr>byte0 = 2, byte1 = 1, byte2 = 200, byte3 = 0\<rparr>]\<rparr>
   \<and> LoadPPM WideCharToMultiByte
     (Some (CHR 0xEF # CHR 0xBB # CHR 0xBF # ''P6\<newline>1 1\<newline>255\<newline>'' @ [CHR 0xC8, CHR 0x01, CHR 0x02]))
     = Returns NotP3 \<lparr>width = 0, height = 0, pixels = []\<rparr>
   \<and> LoadPPM WideCharToMultiByte
     (Some [CHR 0xFF, CHR 0xFE, CHR ''P'', CHR 0x00, CHR ''6'', CHR 0x00, CHR 0x0A, CHR 0x00,
            CHR ''1'', CHR 0x00, CHR '' '', CHR 0x00, CHR ''1'', CHR 0x00, CHR 0x0A, CHR 0x00,
            CHR ''2'', CHR 0x00, CHR ''5'', CHR 0x00, CHR ''5'', CHR 0x00, CHR 0x0A, CHR 0x00,
            CHR ''a'', CHR 0x00, CHR ''b'', CHR 0x00, CHR ''c'', CHR 0x00])
     = Returns NotP3 \<lparr>width = 0, height = 0, pixels = []\<rparr>
   \<and> LoadPPM WideCharToMultiByte
     (Some [CHR 0xFE, CHR 0xFF, CHR 0x00, CHR ''P'', CHR 0x00, CHR ''6'', CHR 0x00, CHR 0x0A,
            CHR 0x00, CHR ''1'', CHR 0x00, CHR '' '', CHR 0x00, CHR ''1'', CHR 0x00, CHR 0x0A,
            CHR 0x00, CHR ''2'', CHR 0x00, CHR ''5'', CHR 0x00, CHR ''5'', CHR 0x00, CHR 0x0A,
            CHR 0x00, CHR ''a'', CHR 0x00, CHR ''b'', CHR 0x00, CHR ''c''])
     = Returns NotP3 \<lparr>width = 0, height = 0, pixels = []\<rparr>"
  by (simp add: loader_eval utf8_bytes_def high_surrogate_def low_surrogate_def char_of_eq_iff)

section \<open>The bytes of a pixel\<close>

lemma read3_Some: "read3 f = Some ((c0, c1, c2), f') \<longleftrightarrow> f = c0 # c1 # c2 # f'"
  by (cases f rule: read3.cases) auto

lemma p6_loop_done: "\<not> i < n \<Longrightarrow> p6_loop i n maxVal f img = Returns P6Loaded img"
  by (subst p6_loop.simps) simp

lemma p6_loop_step:
  "i < n \<Longrightarrow> p6_loop i n maxVal (c0 # c1 # c2 # f) img =
     p6_loop (i + 1) n maxVal f
       (img\<lparr>pixels := (pixels img)
          [i := write_pixel (rescale maxVal (int (byte c0))) (rescale maxVal (int (byte c1)))
                  (rescale maxVal (int (byte c2)))]\<rparr>)"
  by (subst p6_loop.simps) simp

lemma p6_loop_short:
  "i < n \<Longrightarrow> read3 f = None \<Longrightarrow> p6_loop i n maxVal f img = Returns EndOfFileBinaryPixels (cleared img)"
  by (subst p6_loop.simps) simp

lemma p6_loop_pixels:
  "p6_loop i n maxVal f img = Returns P6Loaded img' \<Longrightarrow> length (pixels img) = n \<Longrightarrow>
     width img' = width img \<and> height img' = height img \<and> length (pixels img') = n \<and>
     (\<forall>k<n. pixels img' ! k =
        (if k < i then pixels img ! k
         else write_pixel (rescale maxVal (int (byte (f ! (3 * (k - i))))))
                (rescale maxVal (int (byte (f ! (3 * (k - i) + 1)))))
                (rescale maxVal (int (byte (f ! (3 * (k - i) + 2)))))))"
proof (induction "n - i" arbitrary: i f img)
  case 0
  then have "\<not> i < n" by simp
  with 0 show ?case by (simp add: p6_loop_done)
next
  case (Suc d)
  then have lt: "i < n" by simp
  show ?case
  proof (cases "read3 f")
    case None
    with lt Suc.prems show ?thesis by (simp add: p6_loop_short)
  next
    case (Some a)
    then obtain c0 c1 c2 f' where f: "f = c0 # c1 # c2 # f'"
      by (cases a) (auto simp: read3_Some)
    define img1 where "img1 = img\<lparr>pixels := (pixels img)
          [i := write_pixel (rescale maxVal (int (byte c0))) (rescale maxVal (int (byte c1)))
                  (rescale maxVal (int (byte c2)))]\<rparr>"
    from Suc.prems(1) lt have run: "p6_loop (i + 1) n maxVal f' img1 = Returns P6Loaded img'"
      by (simp add: f p6_loop_step img1_def)
    have len: "length (pixels img1) = n"
      using Suc.prems(2) by (simp add: img1_def)
    from Suc.hyps(2) have d: "d = n - (i + 1)" by simp
    note IH = Suc.hyps(1) [OF d run len]
    have "pixels img' ! k =
        (if k < i then pixels img ! k
         else write_pixel (rescale maxVal (int (byte (f ! (3 * (k - i))))))
                (rescale maxVal (int (byte (f ! (3 * (k - i) + 1)))))
                (rescale maxVal (int (byte (f ! (3 * (k - i) + 2))))))" if k: "k < n" for k
    proof (cases "k < i + 1")
      case True
      with IH k have "pixels img' ! k = pixels img1 ! k" by simp
      with True k Suc.prems(2) show ?thesis
        by (cases "k = i") (auto simp: img1_def f)
    next
      case False
      then obtain j where j: "k - i = Suc j" and j': "k - Suc i = j"
        by (cases "k - i") auto
      from IH k False have "pixels img' ! k =
          write_pixel (rescale maxVal (int (byte (f' ! (3 * j)))))
            (rescale maxVal (int (byte (f' ! (3 * j + 1)))))
            (rescale maxVal (int (byte (f' ! (3 * j + 2)))))"
        by (simp add: j')
      with False show ?thesis
        by (simp add: j f)
    qed
    with IH show ?thesis by (simp add: img1_def)
  qed
qed

lemma p3_loop_done: "\<not> i < n \<Longrightarrow> p3_loop i n maxVal f img = Returns P3Loaded img"
  by (subst p3_loop.simps) simp

lemma p3_loop_step:
  "i < n \<Longrightarrow> nextToken f = Some (sr, f1) \<Longrightarrow> nextToken f1 = Some (sg, f2) \<Longrightarrow>
   nextToken f2 = Some (sb, f3) \<Longrightarrow> stoi sr = Inr r \<Longrightarrow> stoi sg = Inr g \<Longrightarrow>
   stoi sb = Inr b \<Longrightarrow>
   p3_loop i n maxVal f img =
     p3_loop (i + 1) n maxVal f3
       (img\<lparr>pixels := (pixels img)
          [i := write_pixel (clamp255 (rescale maxVal r)) (clamp255 (rescale maxVal g))
                  (clamp255 (rescale maxVal b))]\<rparr>)"
  by (subst p3_loop.simps) simp

lemma p3_loop_reads:
  "i < n \<Longrightarrow> p3_loop i n maxVal f img = Returns P3Loaded img' \<Longrightarrow>
   \<exists>sr f1 sg f2 sb f3 r g b.
     nextToken f = Some (sr, f1) \<and> nextToken f1 = Some (sg, f2) \<and> nextToken f2 = Some (sb, f3) \<and>
     stoi sr = Inr r \<and> stoi sg = Inr g \<and> stoi sb = Inr b"
  by (subst (asm) p3_loop.simps)
     (auto simp: cleared_def split: option.splits sum.splits prod.splits)

lemma p3_loop_pixels:
  "p3_loop i n maxVal f img = Returns P3Loaded img' \<Longrightarrow> length (pixels img) = n \<Longrightarrow>
     width img' = width img \<and> height img' = height img \<and> length (pixels img') = n \<and>
     length (file_tokens (3 * (n - i)) f) = 3 * (n - i) \<and>
     (\<forall>k<n. if k < i then pixels img' ! k = pixels img ! k
        else (\<exists>r g b.
          stoi (file_tokens (3 * (n - i)) f ! (3 * (k - i))) = Inr r \<and>
          stoi (file_tokens (3 * (n - i)) f ! (3 * (k - i) + 1)) = Inr g \<and>
          stoi (file_tokens (3 * (n - i)) f ! (3 * (k - i) + 2)) = Inr b \<and>
          pixels img' ! k =
            write_pixel (clamp255 (rescale maxVal r)) (clamp255 (rescale maxVal g))
              (clamp255 (rescale maxVal b))))"
proof (induction "n - i" arbitrary: i f img)
  case 0
  then have "\<not> i < n" by simp
  with 0 show ?case by (simp add: p3_loop_done)
next
  case (Suc d)
  then have lt: "i < n" by simp
  from p3_loop_reads [OF lt Suc.prems(1)]
  obtain sr f1 sg f2 sb f3 r g b where
    t: "nextToken f = Some (sr, f1)" "nextToken f1 = Some (sg, f2)" "nextToken f2 = Some (sb, f3)" and
    v: "stoi sr = Inr r" "stoi sg = Inr g" "stoi sb = Inr b"
    by blast
  define img1 where "img1 = img\<lparr>pixels := (pixels img)
          [i := write_pixel (clamp255 (rescale maxVal r)) (clamp255 (rescale maxVal g))
                  (clamp255 (rescale maxVal b))]\<rparr>"
  from Suc.prems(1) have run: "p3_loop (i + 1) n maxVal f3 img1 = Returns P3Loaded img'"
    by (simp add: p3_loop_step [OF lt t v] img1_def)
  have len: "length (pixels img1) = n"
    using Suc.prems(2) by (simp add: img1_def)
  from Suc.hyps(2) have d: "d = n - (i + 1)" by simp
  note IH = Suc.hyps(1) [OF d run len]
  from Suc.hyps(2) have three: "3 * (n - i) = Suc (Suc (Suc (3 * d)))" by simp
  have toks: "file_tokens (3 * (n - i)) f = sr # sg # sb # file_tokens (3 * d) f3"
    unfolding three by (simp add: t)
  have d': "n - Suc i = d" using d by simp
  have "if k < i then pixels img' ! k = pixels img ! k
        else (\<exists>r g b.
          stoi (file_tokens (3 * (n - i)) f ! (3 * (k - i))) = Inr r \<and>
          stoi (file_tokens (3 * (n - i)) f ! (3 * (k - i) + 1)) = Inr g \<and>
          stoi (file_tokens (3 * (n - i)) f ! (3 * (k - i) + 2)) = Inr b \<and>
          pixels img' ! k =
            write_pixel (clamp255 (rescale maxVal r)) (clamp255 (rescale maxVal g))
              (clamp255 (rescale maxVal b)))" if k: "k < n" for k
  proof (cases "k < i + 1")
    case True
    with IH k have "pixels img' ! k = pixels img1 ! k" by simp
    with True k Suc.prems(2) v show ?thesis
      by (cases "k = i") (auto simp: img1_def toks)
  next
    case False
    then obtain j where j: "k - i = Suc j" and j': "k - Suc i = j"
      by (cases "k - i") auto
    from IH k False have "\<exists>r g b.
          stoi (file_tokens (3 * (n - (i + 1))) f3 ! (3 * (k - (i + 1)))) = Inr r \<and>
          stoi (file_tokens (3 * (n - (i + 1))) f3 ! (3 * (k - (i + 1)) + 1)) = Inr g \<and>
          stoi (file_tokens (3 * (n - (i + 1))) f3 ! (3 * (k - (i + 1)) + 2)) = Inr b \<and>
          pixels img' ! k =
            write_pixel (clamp255 (rescale maxVal r)) (clamp255 (rescale maxVal g))
              (clamp255 (rescale maxVal b))"
      by auto
    with False show ?thesis
      by (simp add: j j' d' toks)
  qed
  note px = this
  have lt: "length (file_tokens (3 * (n - i)) f) = 3 * (n - i)"
    unfolding toks using IH by (simp add: d' three)
  show ?case
  proof (intro conjI allI impI)
    show "width img' = width img" using IH by (simp add: img1_def)
    show "height img' = height img" using IH by (simp add: img1_def)
    show "length (pixels img') = n" using IH by simp
    show "length (file_tokens (3 * (n - i)) f) = 3 * (n - i)" by (rule lt)
  qed (rule px)
qed

lemma p3_string_loop_done: "\<not> i < n \<Longrightarrow> p3_string_loop i n maxVal f img = Returns P3Loaded img"
  by (subst p3_string_loop.simps) simp

lemma p3_string_loop_step:
  "i < n \<Longrightarrow> nextTokenStr f = Some (sr, f1) \<Longrightarrow> nextTokenStr f1 = Some (sg, f2) \<Longrightarrow>
   nextTokenStr f2 = Some (sb, f3) \<Longrightarrow> stoi (normalizeToken sr) = Inr r \<Longrightarrow> stoi (normalizeToken sg) = Inr g \<Longrightarrow>
   stoi (normalizeToken sb) = Inr b \<Longrightarrow>
   p3_string_loop i n maxVal f img =
     p3_string_loop (i + 1) n maxVal f3
       (img\<lparr>pixels := (pixels img)
          [i := write_pixel (clamp255 (rescale maxVal r)) (clamp255 (rescale maxVal g))
                  (clamp255 (rescale maxVal b))]\<rparr>)"
  by (subst p3_string_loop.simps) simp

lemma p3_string_loop_reads:
  "i < n \<Longrightarrow> p3_string_loop i n maxVal f img = Returns P3Loaded img' \<Longrightarrow>
   \<exists>sr f1 sg f2 sb f3 r g b.
     nextTokenStr f = Some (sr, f1) \<and> nextTokenStr f1 = Some (sg, f2) \<and> nextTokenStr f2 = Some (sb, f3) \<and>
     stoi (normalizeToken sr) = Inr r \<and> stoi (normalizeToken sg) = Inr g \<and> stoi (normalizeToken sb) = Inr b"
  by (subst (asm) p3_string_loop.simps)
     (auto simp: cleared_def split: option.splits sum.splits prod.splits)

lemma p3_string_loop_pixels:
  "p3_string_loop i n maxVal f img = Returns P3Loaded img' \<Longrightarrow> length (pixels img) = n \<Longrightarrow>
     width img' = width img \<and> height img' = height img \<and> length (pixels img') = n \<and>
     length (text_tokens (3 * (n - i)) f) = 3 * (n - i) \<and>
     (\<forall>k<n. if k < i then pixels img' ! k = pixels img ! k
        else (\<exists>r g b.
          stoi (normalizeToken (text_tokens (3 * (n - i)) f ! (3 * (k - i)))) = Inr r \<and>
          stoi (normalizeToken (text_tokens (3 * (n - i)) f ! (3 * (k - i) + 1))) = Inr g \<and>
          stoi (normalizeToken (text_tokens (3 * (n - i)) f ! (3 * (k - i) + 2))) = Inr b \<and>
          pixels img' ! k =
            write_pixel (clamp255 (rescale maxVal r)) (clamp255 (rescale maxVal g))
              (clamp255 (rescale maxVal b))))"
proof (induction "n - i" arbitrary: i f img)
  case 0
  then have "\<not> i < n" by simp
  with 0 show ?case by (simp add: p3_string_loop_done)
next
  case (Suc d)
  then have lt: "i < n" by simp
  from p3_string_loop_reads [OF lt Suc.prems(1)]
  obtain sr f1 sg f2 sb f3 r g b where
    t: "nextTokenStr f = Some (sr, f1)" "nextTokenStr f1 = Some (sg, f2)" "nextTokenStr f2 = Some (sb, f3)" and
    v: "stoi (normalizeToken sr) = Inr r" "stoi (normalizeToken sg) = Inr g" "stoi (normalizeToken sb) = Inr b"
    by blast
  define img1 where "img1 = img\<lparr>pixels := (pixels img)
          [i := write_pixel (clamp255 (rescale maxVal r)) (clamp255 (rescale maxVal g))
                  (clamp255 (rescale maxVal b))]\<rparr>"
  from Suc.prems(1) have run: "p3_string_loop (i + 1) n maxVal f3 img1 = Returns P3Loaded img'"
    by (simp add: p3_string_loop_step [OF lt t v] img1_def)
  have len: "length (pixels img1) = n"
    using Suc.prems(2) by (simp add: img1_def)
  from Suc.hyps(2) have d: "d = n - (i + 1)" by simp
  note IH = Suc.hyps(1) [OF d run len]
  from Suc.hyps(2) have three: "3 * (n - i) = Suc (Suc (Suc (3 * d)))" by simp
  have toks: "text_tokens (3 * (n - i)) f = sr # sg # sb # text_tokens (3 * d) f3"
    unfolding three by (simp add: t)
  have d': "n - Suc i = d" using d by simp
  have "if k < i then pixels img' ! k = pixels img ! k
        else (\<exists>r g b.
          stoi (normalizeToken (text_tokens (3 * (n - i)) f ! (3 * (k - i)))) = Inr r \<and>
          stoi (normalizeToken (text_tokens (3 * (n - i)) f ! (3 * (k - i) + 1))) = Inr g \<and>
          stoi (normalizeToken (text_tokens (3 * (n - i)) f ! (3 * (k - i) + 2))) = Inr b \<and>
          pixels img' ! k =
            write_pixel (clamp255 (rescale maxVal r)) (clamp255 (rescale maxVal g))
              (clamp255 (rescale maxVal b)))" if k: "k < n" for k
  proof (cases "k < i + 1")
    case True
    with IH k have "pixels img' ! k = pixels img1 ! k" by simp
    with True k Suc.prems(2) v show ?thesis
      by (cases "k = i") (auto simp: img1_def toks)
  next
    case False
    then obtain j where j: "k - i = Suc j" and j': "k - Suc i = j"
      by (cases "k - i") auto
    from IH k False have "\<exists>r g b.
          stoi (normalizeToken (text_tokens (3 * (n - (i + 1))) f3 ! (3 * (k - (i + 1))))) = Inr r \<and>
          stoi (normalizeToken (text_tokens (3 * (n - (i + 1))) f3 ! (3 * (k - (i + 1)) + 1))) = Inr g \<and>
          stoi (normalizeToken (text_tokens (3 * (n - (i + 1))) f3 ! (3 * (k - (i + 1)) + 2))) = Inr b \<and>
          pixels img' ! k =
            write_pixel (clamp255 (rescale maxVal r)) (clamp255 (rescale maxVal g))
              (clamp255 (rescale maxVal b))"
      by auto
    with False show ?thesis
      by (simp add: j j' d' toks)
  qed
  note px = this
  have lt: "length (text_tokens (3 * (n - i)) f) = 3 * (n - i)"
    unfolding toks using IH by (simp add: d' three)
  show ?case
  proof (intro conjI allI impI)
    show "width img' = width img" using IH by (simp add: img1_def)
    show "height img' = height img" using IH by (simp add: img1_def)
    show "length (pixels img') = n" using IH by simp
    show "length (text_tokens (3 * (n - i)) f) = 3 * (n - i)" by (rule lt)
  qed (rule px)
qed

lemma stoi_range: "stoi s = Inr v \<Longrightarrow> INT_MIN \<le> v \<and> v \<le> INT_MAX"
  by (auto simp: stoi_def Let_def split: prod.splits if_splits)

lemma pixel_count:
  assumes "0 < w" "0 < h" "w \<le> INT_MAX" "h \<le> INT_MAX"
  shows "int (mul_uint64 (uint64_of_int w) (uint64_of_int h)) = w * h"
proof -
  from assms have w: "uint64_of_int w = nat w" and h: "uint64_of_int h = nat h"
    by (simp_all add: uint64_of_int_def INT_MAX_def)
  from assms have "nat w \<le> 2147483647" "nat h \<le> 2147483647"
    by (simp_all add: INT_MAX_def)
  then have "nat w * nat h \<le> 2147483647 * 2147483647"
    by (rule mult_le_mono)
  then have "(nat w * nat h) mod 18446744073709551616 = nat w * nat h"
    by simp
  with assms(1,2) show ?thesis
    by (simp add: w h mul_uint64_def nat_mult_distrib)
qed

lemma load_p6_loaded:
  "load_p6 f = Returns P6Loaded img \<Longrightarrow>
   \<exists>wstr f1 hstr f2 mstr sep body w h maxVal.
     nextToken f = Some (wstr, f1) \<and> nextToken f1 = Some (hstr, f2) \<and>
     nextToken f2 = Some (mstr, sep # body) \<and>
     stoi (normalizeToken wstr) = Inr w \<and> stoi (normalizeToken hstr) = Inr h \<and>
     stoi (normalizeToken mstr) = Inr maxVal \<and> 0 < w \<and> 0 < h \<and>
     p6_loop 0 (mul_uint64 (uint64_of_int w) (uint64_of_int h)) maxVal body
       \<lparr>width = w, height = h,
          pixels = replicate (mul_uint64 (uint64_of_int w) (uint64_of_int h)) zero_pixel\<rparr>
       = Returns P6Loaded img"
  by (auto simp: load_p6_def Let_def new_Image_def
      split: option.splits sum.splits if_splits prod.splits list.splits)

lemma load_p3_loaded:
  "load_p3 f = Returns P3Loaded img \<Longrightarrow>
   \<exists>wtoken f1 htoken f2 mtoken body w h maxVal.
     nextToken f = Some (wtoken, f1) \<and> nextToken f1 = Some (htoken, f2) \<and>
     nextToken f2 = Some (mtoken, body) \<and>
     stoi (normalizeToken wtoken) = Inr w \<and> stoi (normalizeToken htoken) = Inr h \<and>
     stoi (normalizeToken mtoken) = Inr maxVal \<and> 0 < w \<and> 0 < h \<and>
     p3_loop 0 (mul_uint64 (uint64_of_int w) (uint64_of_int h)) maxVal body
       \<lparr>width = w, height = h,
          pixels = replicate (mul_uint64 (uint64_of_int w) (uint64_of_int h)) zero_pixel\<rparr>
       = Returns P3Loaded img"
  by (auto simp: load_p3_def Let_def new_Image_def
      split: option.splits sum.splits if_splits prod.splits)

lemma load_text_loaded:
  "load_text ss = Returns P3Loaded img \<Longrightarrow>
   \<exists>token ss1 wtoken ss2 htoken ss3 mtoken body w h maxVal.
     nextTokenStr ss = Some (token, ss1) \<and>
     nextTokenStr ss1 = Some (wtoken, ss2) \<and> nextTokenStr ss2 = Some (htoken, ss3) \<and>
     nextTokenStr ss3 = Some (mtoken, body) \<and>
     stoi (normalizeToken wtoken) = Inr w \<and> stoi (normalizeToken htoken) = Inr h \<and>
     stoi (normalizeToken mtoken) = Inr maxVal \<and> 0 < w \<and> 0 < h \<and>
     p3_string_loop 0 (mul_uint64 (uint64_of_int w) (uint64_of_int h)) maxVal body
       \<lparr>width = w, height = h,
          pixels = replicate (mul_uint64 (uint64_of_int w) (uint64_of_int h)) zero_pixel\<rparr>
       = Returns P3Loaded img"
  by (auto simp: load_text_def Let_def new_Image_def
      split: option.splits sum.splits if_splits prod.splits)

lemma load_p6_pixels:
  assumes "nextToken f = Some (wstr, f1)" and "nextToken f1 = Some (hstr, f2)"
    and "nextToken f2 = Some (mstr, sep # body)" and "stoi (normalizeToken mstr) = Inr maxVal"
    and "load_p6 f = Returns P6Loaded img"
  shows "int (length (pixels img)) = width img * height img \<and>
     (\<forall>k<length (pixels img).
        byte0 (pixels img ! k) = to_uint8 (rescale maxVal (int (byte (body ! (3 * k + 2))))) \<and>
        byte1 (pixels img ! k) = to_uint8 (rescale maxVal (int (byte (body ! (3 * k + 1))))) \<and>
        byte2 (pixels img ! k) = to_uint8 (rescale maxVal (int (byte (body ! (3 * k))))) \<and>
        byte3 (pixels img ! k) = 0)"
proof -
  from load_p6_loaded [OF assms(5)] assms(1-4) obtain w h where
    wh: "stoi (normalizeToken wstr) = Inr w" "stoi (normalizeToken hstr) = Inr h" "0 < w" "0 < h"
    and run: "p6_loop 0 (mul_uint64 (uint64_of_int w) (uint64_of_int h)) maxVal body
       \<lparr>width = w, height = h,
          pixels = replicate (mul_uint64 (uint64_of_int w) (uint64_of_int h)) zero_pixel\<rparr>
       = Returns P6Loaded img"
    by auto
  from p6_loop_pixels [OF run] have
    dims: "width img = w" "height img = h"
    and len: "length (pixels img) = mul_uint64 (uint64_of_int w) (uint64_of_int h)"
    and px: "\<forall>k<mul_uint64 (uint64_of_int w) (uint64_of_int h). pixels img ! k =
        write_pixel (rescale maxVal (int (byte (body ! (3 * k)))))
          (rescale maxVal (int (byte (body ! (3 * k + 1)))))
          (rescale maxVal (int (byte (body ! (3 * k + 2)))))"
    by simp_all
  from stoi_range [OF wh(1)] stoi_range [OF wh(2)] wh(3,4)
  have "int (mul_uint64 (uint64_of_int w) (uint64_of_int h)) = w * h"
    by (intro pixel_count) simp_all
  with dims len px show ?thesis
    by (simp add: write_pixel_def)
qed

lemma load_p3_pixels:
  assumes "nextToken f = Some (wtoken, f1)" and "nextToken f1 = Some (htoken, f2)"
    and "nextToken f2 = Some (mtoken, body)" and "stoi (normalizeToken mtoken) = Inr maxVal"
    and "load_p3 f = Returns P3Loaded img"
  shows "int (length (pixels img)) = width img * height img \<and>
     (\<forall>k<length (pixels img). \<exists>r g b.
        stoi (file_tokens (3 * length (pixels img)) body ! (3 * k)) = Inr r \<and>
        stoi (file_tokens (3 * length (pixels img)) body ! (3 * k + 1)) = Inr g \<and>
        stoi (file_tokens (3 * length (pixels img)) body ! (3 * k + 2)) = Inr b \<and>
        byte0 (pixels img ! k) = to_uint8 (clamp255 (rescale maxVal b)) \<and>
        byte1 (pixels img ! k) = to_uint8 (clamp255 (rescale maxVal g)) \<and>
        byte2 (pixels img ! k) = to_uint8 (clamp255 (rescale maxVal r)) \<and>
        byte3 (pixels img ! k) = 0)"
proof -
  from load_p3_loaded [OF assms(5)] assms(1-4) obtain w h where
    wh: "stoi (normalizeToken wtoken) = Inr w" "stoi (normalizeToken htoken) = Inr h" "0 < w" "0 < h"
    and run: "p3_loop 0 (mul_uint64 (uint64_of_int w) (uint64_of_int h)) maxVal body
       \<lparr>width = w, height = h,
          pixels = replicate (mul_uint64 (uint64_of_int w) (uint64_of_int h)) zero_pixel\<rparr>
       = Returns P3Loaded img"
    by auto
  define n where "n = mul_uint64 (uint64_of_int w) (uint64_of_int h)"
  from p3_loop_pixels [OF run] have
    dims: "width img = w" "height img = h"
    and len: "length (pixels img) = n"
    and px: "\<forall>k<n. \<exists>r g b.
          stoi (file_tokens (3 * n) body ! (3 * k)) = Inr r \<and>
          stoi (file_tokens (3 * n) body ! (3 * k + 1)) = Inr g \<and>
          stoi (file_tokens (3 * n) body ! (3 * k + 2)) = Inr b \<and>
          pixels img ! k =
            write_pixel (clamp255 (rescale maxVal r)) (clamp255 (rescale maxVal g))
              (clamp255 (rescale maxVal b))"
    by (simp_all add: n_def)
  from stoi_range [OF wh(1)] stoi_range [OF wh(2)] wh(3,4)
  have "int n = w * h"
    unfolding n_def by (intro pixel_count) simp_all
  moreover have "\<exists>r g b.
        stoi (file_tokens (3 * n) body ! (3 * k)) = Inr r \<and>
        stoi (file_tokens (3 * n) body ! (3 * k + 1)) = Inr g \<and>
        stoi (file_tokens (3 * n) body ! (3 * k + 2)) = Inr b \<and>
        byte0 (pixels img ! k) = to_uint8 (clamp255 (rescale maxVal b)) \<and>
        byte1 (pixels img ! k) = to_uint8 (clamp255 (rescale maxVal g)) \<and>
        byte2 (pixels img ! k) = to_uint8 (clamp255 (rescale maxVal r)) \<and>
        byte3 (pixels img ! k) = 0" if "k < n" for k
  proof -
    from px that obtain r g b where
      "stoi (file_tokens (3 * n) body ! (3 * k)) = Inr r"
      "stoi (file_tokens (3 * n) body ! (3 * k + 1)) = Inr g"
      "stoi (file_tokens (3 * n) body ! (3 * k + 2)) = Inr b"
      "pixels img ! k =
            write_pixel (clamp255 (rescale maxVal r)) (clamp255 (rescale maxVal g))
              (clamp255 (rescale maxVal b))"
      by blast
    then show ?thesis by (simp add: write_pixel_def)
  qed
  ultimately show ?thesis
    using dims by (simp add: len)
qed

lemma load_text_pixels:
  assumes "nextTokenStr ss = Some (token, ss1)"
    and "nextTokenStr ss1 = Some (wtoken, ss2)" and "nextTokenStr ss2 = Some (htoken, ss3)"
    and "nextTokenStr ss3 = Some (mtoken, body)" and "stoi (normalizeToken mtoken) = Inr maxVal"
    and "load_text ss = Returns P3Loaded img"
  shows "int (length (pixels img)) = width img * height img \<and>
     (\<forall>k<length (pixels img). \<exists>r g b.
        stoi (normalizeToken (text_tokens (3 * length (pixels img)) body ! (3 * k))) = Inr r \<and>
        stoi (normalizeToken (text_tokens (3 * length (pixels img)) body ! (3 * k + 1))) = Inr g \<and>
        stoi (normalizeToken (text_tokens (3 * length (pixels img)) body ! (3 * k + 2))) = Inr b \<and>
        byte0 (pixels img ! k) = to_uint8 (clamp255 (rescale maxVal b)) \<and>
        byte1 (pixels img ! k) = to_uint8 (clamp255 (rescale maxVal g)) \<and>
        byte2 (pixels img ! k) = to_uint8 (clamp255 (rescale maxVal r)) \<and>
        byte3 (pixels img ! k) = 0)"
proof -
  from load_text_loaded [OF assms(6)] assms(1-5) obtain w h where
    wh: "stoi (normalizeToken wtoken) = Inr w" "stoi (normalizeToken htoken) = Inr h" "0 < w" "0 < h"
    and run: "p3_string_loop 0 (mul_uint64 (uint64_of_int w) (uint64_of_int h)) maxVal body
       \<lparr>width = w, height = h,
          pixels = replicate (mul_uint64 (uint64_of_int w) (uint64_of_int h)) zero_pixel\<rparr>
       = Returns P3Loaded img"
    by auto
  define n where "n = mul_uint64 (uint64_of_int w) (uint64_of_int h)"
  from p3_string_loop_pixels [OF run] have
    dims: "width img = w" "height img = h"
    and len: "length (pixels img) = n"
    and px: "\<forall>k<n. \<exists>r g b.
          stoi (normalizeToken (text_tokens (3 * n) body ! (3 * k))) = Inr r \<and>
          stoi (normalizeToken (text_tokens (3 * n) body ! (3 * k + 1))) = Inr g \<and>
          stoi (normalizeToken (text_tokens (3 * n) body ! (3 * k + 2))) = Inr b \<and>
          pixels img ! k =
            write_pixel (clamp255 (rescale maxVal r)) (clamp255 (rescale maxVal g))
              (clamp255 (rescale maxVal b))"
    by (simp_all add: n_def)
  from stoi_range [OF wh(1)] stoi_range [OF wh(2)] wh(3,4)
  have "int n = w * h"
    unfolding n_def by (intro pixel_count) simp_all
  moreover have "\<exists>r g b.
        stoi (normalizeToken (text_tokens (3 * n) body ! (3 * k))) = Inr r \<and>
        stoi (normalizeToken (text_tokens (3 * n) body ! (3 * k + 1))) = Inr g \<and>
        stoi (normalizeToken (text_tokens (3 * n) body ! (3 * k + 2))) = Inr b \<and>
        byte0 (pixels img ! k) = to_uint8 (clamp255 (rescale maxVal b)) \<and>
        byte1 (pixels img ! k) = to_uint8 (clamp255 (rescale maxVal g)) \<and>
        byte2 (pixels img ! k) = to_uint8 (clamp255 (rescale maxVal r)) \<and>
        byte3 (pixels img ! k) = 0" if "k < n" for k
  proof -
    from px that obtain r g b where
      "stoi (normalizeToken (text_tokens (3 * n) body ! (3 * k))) = Inr r"
      "stoi (normalizeToken (text_tokens (3 * n) body ! (3 * k + 1))) = Inr g"
      "stoi (normalizeToken (text_tokens (3 * n) body ! (3 * k + 2))) = Inr b"
      "pixels img ! k =
            write_pixel (clamp255 (rescale maxVal r)) (clamp255 (rescale maxVal g))
              (clamp255 (rescale maxVal b))"
      by blast
    then show ?thesis by (simp add: write_pixel_def)
  qed
  ultimately show ?thesis
    using dims by (simp add: len)
qed

text \<open>
  C7. In every image that one of the three parsers reports as loaded, the buffer holds
  width times height pixels, and the four bytes of the pixel \<open>k\<close> are, in address
  order: byte 0 the blue channel, byte 1 the green channel, byte 2 the red channel,
  byte 3 zero, where red, green and blue are the first, second and third value of the
  \<open>k\<close>-th triple of the pixel data (three raw bytes for P6, three tokens for P3), each
  rescaled (and, in the two P3 loops, clamped) and cast to a byte. The pixel data is what
  follows the header: after the token of the maximum value and, for P6, one separator
  byte. The document of the specification's scenario loads as the four pixels it lists.
\<close>

theorem pixel_bytes_blue_green_red:
  "(nextToken f = Some (wstr, f1) \<and> nextToken f1 = Some (hstr, f2) \<and>
    nextToken f2 = Some (mstr, sep # body) \<and> stoi (normalizeToken mstr) = Inr maxVal \<and>
    load_p6 f = Returns P6Loaded img \<longrightarrow>
      int (length (pixels img)) = width img * height img \<and>
      (\<forall>k<length (pixels img).
         byte0 (pixels img ! k) = to_uint8 (rescale maxVal (int (byte (body ! (3 * k + 2))))) \<and>
         byte1 (pixels img ! k) = to_uint8 (rescale maxVal (int (byte (body ! (3 * k + 1))))) \<and>
         byte2 (pixels img ! k) = to_uint8 (rescale maxVal (int (byte (body ! (3 * k))))) \<and>
         byte3 (pixels img ! k) = 0))
   \<and> (nextToken f = Some (wstr, f1) \<and> nextToken f1 = Some (hstr, f2) \<and>
    nextToken f2 = Some (mstr, tbody) \<and> stoi (normalizeToken mstr) = Inr maxVal \<and>
    load_p3 f = Returns P3Loaded img \<longrightarrow>
      int (length (pixels img)) = width img * height img \<and>
      (\<forall>k<length (pixels img). \<exists>r g b.
         stoi (file_tokens (3 * length (pixels img)) tbody ! (3 * k)) = Inr r \<and>
         stoi (file_tokens (3 * length (pixels img)) tbody ! (3 * k + 1)) = Inr g \<and>
         stoi (file_tokens (3 * length (pixels img)) tbody ! (3 * k + 2)) = Inr b \<and>
         byte0 (pixels img ! k) = to_uint8 (clamp255 (rescale maxVal b)) \<and>
         byte1 (pixels img ! k) = to_uint8 (clamp255 (rescale maxVal g)) \<and>
         byte2 (pixels img ! k) = to_uint8 (clamp255 (rescale maxVal r)) \<and>
         byte3 (pixels img ! k) = 0))
   \<and> (nextTokenStr ss = Some (token, ss1) \<and> nextTokenStr ss1 = Some (wtoken, ss2) \<and>
    nextTokenStr ss2 = Some (htoken, ss3) \<and> nextTokenStr ss3 = Some (mtoken, sbody) \<and>
    stoi (normalizeToken mtoken) = Inr maxVal \<and> load_text ss = Returns P3Loaded img \<longrightarrow>
      int (length (pixels img)) = width img * height img \<and>
      (\<forall>k<length (pixels img). \<exists>r g b.
         stoi (normalizeToken (text_tokens (3 * length (pixels img)) sbody ! (3 * k))) = Inr r \<and>
         stoi (normalizeToken (text_tokens (3 * length (pixels img)) sbody ! (3 * k + 1))) = Inr g \<and>
         stoi (normalizeToken (text_tokens (3 * length (pixels img)) sbody ! (3 * k + 2))) = Inr b \<and>
         byte0 (pixels img ! k) = to_uint8 (clamp255 (rescale maxVal b)) \<and>
         byte1 (pixels img ! k) = to_uint8 (clamp255 (rescale maxVal g)) \<and>
         byte2 (pixels img ! k) = to_uint8 (clamp255 (rescale maxVal r)) \<and>
         byte3 (pixels img ! k) = 0))"
proof (intro conjI)
  show "nextToken f = Some (wstr, f1) \<and> nextToken f1 = Some (hstr, f2) \<and>
    nextToken f2 = Some (mstr, sep # body) \<and> stoi (normalizeToken mstr) = Inr maxVal \<and>
    load_p6 f = Returns P6Loaded img \<longrightarrow>
      int (length (pixels img)) = width img * height img \<and>
      (\<forall>k<length (pixels img).
         byte0 (pixels img ! k) = to_uint8 (rescale maxVal (int (byte (body ! (3 * k + 2))))) \<and>
         byte1 (pixels img ! k) = to_uint8 (rescale maxVal (int (byte (body ! (3 * k + 1))))) \<and>
         byte2 (pixels img ! k) = to_uint8 (rescale maxVal (int (byte (body ! (3 * k))))) \<and>
         byte3 (pixels img ! k) = 0)"
    using load_p6_pixels [of f wstr f1 hstr f2 mstr sep body maxVal img] by blast
  show "nextToken f = Some (wstr, f1) \<and> nextToken f1 = Some (hstr, f2) \<and>
    nextToken f2 = Some (mstr, tbody) \<and> stoi (normalizeToken mstr) = Inr maxVal \<and>
    load_p3 f = Returns P3Loaded img \<longrightarrow>
      int (length (pixels img)) = width img * height img \<and>
      (\<forall>k<length (pixels img). \<exists>r g b.
         stoi (file_tokens (3 * length (pixels img)) tbody ! (3 * k)) = Inr r \<and>
         stoi (file_tokens (3 * length (pixels img)) tbody ! (3 * k + 1)) = Inr g \<and>
         stoi (file_tokens (3 * length (pixels img)) tbody ! (3 * k + 2)) = Inr b \<and>
         byte0 (pixels img ! k) = to_uint8 (clamp255 (rescale maxVal b)) \<and>
         byte1 (pixels img ! k) = to_uint8 (clamp255 (rescale maxVal g)) \<and>
         byte2 (pixels img ! k) = to_uint8 (clamp255 (rescale maxVal r)) \<and>
         byte3 (pixels img ! k) = 0)"
    using load_p3_pixels [of f wstr f1 hstr f2 mstr tbody maxVal img] by blast
  show "nextTokenStr ss = Some (token, ss1) \<and> nextTokenStr ss1 = Some (wtoken, ss2) \<and>
    nextTokenStr ss2 = Some (htoken, ss3) \<and> nextTokenStr ss3 = Some (mtoken, sbody) \<and>
    stoi (normalizeToken mtoken) = Inr maxVal \<and> load_text ss = Returns P3Loaded img \<longrightarrow>
      int (length (pixels img)) = width img * height img \<and>
      (\<forall>k<length (pixels img). \<exists>r g b.
         stoi (normalizeToken (text_tokens (3 * length (pixels img)) sbody ! (3 * k))) = Inr r \<and>
         stoi (normalizeToken (text_tokens (3 * length (pixels img)) sbody ! (3 * k + 1))) = Inr g \<and>
         stoi (normalizeToken (text_tokens (3 * length (pixels img)) sbody ! (3 * k + 2))) = Inr b \<and>
         byte0 (pixels img ! k) = to_uint8 (clamp255 (rescale maxVal b)) \<and>
         byte1 (pixels img ! k) = to_uint8 (clamp255 (rescale maxVal g)) \<and>
         byte2 (pixels img ! k) = to_uint8 (clamp255 (rescale maxVal r)) \<and>
         byte3 (pixels img ! k) = 0)"
    using load_text_pixels [of ss token ss1 wtoken ss2 htoken ss3 mtoken sbody maxVal img] by blast
qed

lemma replicate_4: "replicate 4 x = [x, x, x, x]"
  by (simp add: eval_nat_numeral)

theorem pixel_bytes_blue_green_red_witness:
  "LoadPPM WideCharToMultiByte
     (Some ''P3\<newline>2 2\<newline>255\<newline>255 0 0  0 255 0  0 0 255  255 255 255\<newline>'')
     = Returns P3Loaded
         \<lparr>width = 2, height = 2,
            pixels = [\<lparr>byte0 = 0, byte1 = 0, byte2 = 255, byte3 = 0\<rparr>,
                      \<lparr>byte0 = 0, byte1 = 255, byte2 = 0, byte3 = 0\<rparr>,
                      \<lparr>byte0 = 255, byte1 = 0, byte2 = 0, byte3 = 0\<rparr>,
                      \<lparr>byte0 = 255, byte1 = 255, byte2 = 255, byte3 = 0\<rparr>]\<rparr>
   \<and> nextToken ''\<newline>1 1\<newline>255\<newline>abc'' = Some (''1'', '' 1\<newline>255\<newline>abc'')
   \<and> nextToken '' 1\<newline>255\<newline>abc'' = Some (''1'', ''\<newline>255\<newline>abc'')
   \<and> nextToken ''\<newline>255\<newline>abc'' = Some (''255'', CHR 0x0A # ''abc'')
   \<and> stoi (normalizeToken ''255'') = Inr 255
   \<and> load_p6 ''\<newline>1 1\<newline>255\<newline>abc''
     = Returns P6Loaded
         \<lparr>width = 1, height = 1, pixels = [\<lparr>byte0 = 99, byte1 = 98, byte2 = 97, byte3 = 0\<rparr>]\<rparr>
   \<and> to_uint8 (rescale 255 (int (byte (''abc'' ! (3 * 0 + 2))))) = 99
   \<and> to_uint8 (rescale 255 (int (byte (''abc'' ! (3 * 0 + 1))))) = 98
   \<and> to_uint8 (rescale 255 (int (byte (''abc'' ! (3 * 0))))) = 97
   \<and> nextToken ''\<newline>255\<newline>7 8 9'' = Some (''255'', ''\<newline>7 8 9'')
   \<and> load_p3 ''\<newline>1 1\<newline>255\<newline>7 8 9''
     = Returns P3Loaded
         \<lparr>width = 1, height = 1, pixels = [\<lparr>byte0 = 9, byte1 = 8, byte2 = 7, byte3 = 0\<rparr>]\<rparr>
   \<and> file_tokens 3 ''\<newline>7 8 9'' = [''7'', ''8'', ''9'']
   \<and> nextTokenStr ''P3 1 1 255 7 8 9'' = Some (''P3'', '' 1 1 255 7 8 9'')
   \<and> nextTokenStr '' 1 1 255 7 8 9'' = Some (''1'', '' 1 255 7 8 9'')
   \<and> nextTokenStr '' 1 255 7 8 9'' = Some (''1'', '' 255 7 8 9'')
   \<and> nextTokenStr '' 255 7 8 9'' = Some (''255'', '' 7 8 9'')
   \<and> load_text ''P3 1 1 255 7 8 9''
     = Returns P3Loaded
         \<lparr>width = 1, height = 1, pixels = [\<lparr>byte0 = 9, byte1 = 8, byte2 = 7, byte3 = 0\<rparr>]\<rparr>
   \<and> text_tokens 3 '' 7 8 9'' = [''7'', ''8'', ''9'']
   \<and> stoi ''7'' = Inr 7 \<and> stoi ''8'' = Inr 8 \<and> stoi ''9'' = Inr 9
   \<and> to_uint8 (clamp255 (rescale 255 9)) = 9
   \<and> to_uint8 (clamp255 (rescale 255 8)) = 8
   \<and> to_uint8 (clamp255 (rescale 255 7)) = 7"
proof -
  have L: "LoadPPM WideCharToMultiByte
     (Some ''P3\<newline>2 2\<newline>255\<newline>255 0 0  0 255 0  0 0 255  255 255 255\<newline>'')
     = Returns P3Loaded
         \<lparr>width = 2, height = 2,
            pixels = [\<lparr>byte0 = 0, byte1 = 0, byte2 = 255, byte3 = 0\<rparr>,
                      \<lparr>byte0 = 0, byte1 = 255, byte2 = 0, byte3 = 0\<rparr>,
                      \<lparr>byte0 = 255, byte1 = 0, byte2 = 0, byte3 = 0\<rparr>,
                      \<lparr>byte0 = 255, byte1 = 255, byte2 = 255, byte3 = 0\<rparr>]\<rparr>"
    by (simp add: loader_eval replicate_4)
  have t: "nextToken ''\<newline>1 1\<newline>255\<newline>abc'' = Some (''1'', '' 1\<newline>255\<newline>abc'')"
    "nextToken '' 1\<newline>255\<newline>abc'' = Some (''1'', ''\<newline>255\<newline>abc'')"
    "nextToken ''\<newline>255\<newline>abc'' = Some (''255'', CHR 0x0A # ''abc'')"
    by (simp_all add: token_eval)
  have m: "stoi (normalizeToken ''255'') = Inr 255"
    by (simp add: token_eval stoi_eval)
  have l: "load_p6 ''\<newline>1 1\<newline>255\<newline>abc''
     = Returns P6Loaded
         \<lparr>width = 1, height = 1, pixels = [\<lparr>byte0 = 99, byte1 = 98, byte2 = 97, byte3 = 0\<rparr>]\<rparr>"
    by (simp add: load_p6_def p6_loop.simps token_eval stoi_eval pixel_eval)
  have t3: "nextToken ''\<newline>1 1\<newline>255\<newline>7 8 9'' = Some (''1'', '' 1\<newline>255\<newline>7 8 9'')"
    "nextToken '' 1\<newline>255\<newline>7 8 9'' = Some (''1'', ''\<newline>255\<newline>7 8 9'')"
    "nextToken ''\<newline>255\<newline>7 8 9'' = Some (''255'', ''\<newline>7 8 9'')"
    by (simp_all add: token_eval)
  have l3: "load_p3 ''\<newline>1 1\<newline>255\<newline>7 8 9''
     = Returns P3Loaded
         \<lparr>width = 1, height = 1, pixels = [\<lparr>byte0 = 9, byte1 = 8, byte2 = 7, byte3 = 0\<rparr>]\<rparr>"
    by (simp add: load_p3_def p3_loop.simps token_eval stoi_eval pixel_eval)
  have k3: "file_tokens 3 ''\<newline>7 8 9'' = [''7'', ''8'', ''9'']"
    by (simp add: numeral_3_eq_3 token_eval)
  have ts: "nextTokenStr ''P3 1 1 255 7 8 9'' = Some (''P3'', '' 1 1 255 7 8 9'')"
    "nextTokenStr '' 1 1 255 7 8 9'' = Some (''1'', '' 1 255 7 8 9'')"
    "nextTokenStr '' 1 255 7 8 9'' = Some (''1'', '' 255 7 8 9'')"
    "nextTokenStr '' 255 7 8 9'' = Some (''255'', '' 7 8 9'')"
    by (simp_all add: token_eval)
  have ls: "load_text ''P3 1 1 255 7 8 9''
     = Returns P3Loaded
         \<lparr>width = 1, height = 1, pixels = [\<lparr>byte0 = 9, byte1 = 8, byte2 = 7, byte3 = 0\<rparr>]\<rparr>"
    by (simp add: load_text_def p3_string_loop.simps token_eval stoi_eval pixel_eval)
  have ks: "text_tokens 3 '' 7 8 9'' = [''7'', ''8'', ''9'']"
    by (simp add: numeral_3_eq_3 token_eval)
  have v: "stoi ''7'' = Inr 7" "stoi ''8'' = Inr 8" "stoi ''9'' = Inr 9"
    by (simp_all add: stoi_eval)
  have c: "to_uint8 (clamp255 (rescale 255 9)) = 9" "to_uint8 (clamp255 (rescale 255 8)) = 8"
    "to_uint8 (clamp255 (rescale 255 7)) = 7"
    by (simp_all add: pixel_eval)
  have p6: "to_uint8 (rescale 255 (int (byte (''abc'' ! (3 * 0 + 2))))) = 99
     \<and> to_uint8 (rescale 255 (int (byte (''abc'' ! (3 * 0 + 1))))) = 98
     \<and> to_uint8 (rescale 255 (int (byte (''abc'' ! (3 * 0))))) = 97"
    using pixel_bytes_blue_green_red
         [THEN conjunct1,
          of "''\<newline>1 1\<newline>255\<newline>abc''" "''1''" "'' 1\<newline>255\<newline>abc''" "''1''" "''\<newline>255\<newline>abc''"
             "''255''" "CHR 0x0A" "''abc''" 255
             "\<lparr>width = 1, height = 1, pixels = [\<lparr>byte0 = 99, byte1 = 98, byte2 = 97, byte3 = 0\<rparr>]\<rparr>"]
       t m l
    by simp
  have p3: "\<exists>r g b.
         stoi (file_tokens 3 ''\<newline>7 8 9'' ! 0) = Inr r \<and>
         stoi (file_tokens 3 ''\<newline>7 8 9'' ! 1) = Inr g \<and>
         stoi (file_tokens 3 ''\<newline>7 8 9'' ! 2) = Inr b \<and>
         (9 :: 8 word) = to_uint8 (clamp255 (rescale 255 b)) \<and>
         (8 :: 8 word) = to_uint8 (clamp255 (rescale 255 g)) \<and>
         (7 :: 8 word) = to_uint8 (clamp255 (rescale 255 r))"
    using pixel_bytes_blue_green_red
         [THEN conjunct2, THEN conjunct1,
          of "''\<newline>1 1\<newline>255\<newline>7 8 9''" "''1''" "'' 1\<newline>255\<newline>7 8 9''" "''1''"
             "''\<newline>255\<newline>7 8 9''" "''255''" "''\<newline>7 8 9''" 255
             "\<lparr>width = 1, height = 1, pixels = [\<lparr>byte0 = 9, byte1 = 8, byte2 = 7, byte3 = 0\<rparr>]\<rparr>"]
       t3 m l3
    by (simp add: numeral_2_eq_2)
  have ps: "\<exists>r g b.
         stoi (normalizeToken (text_tokens 3 '' 7 8 9'' ! 0)) = Inr r \<and>
         stoi (normalizeToken (text_tokens 3 '' 7 8 9'' ! 1)) = Inr g \<and>
         stoi (normalizeToken (text_tokens 3 '' 7 8 9'' ! 2)) = Inr b \<and>
         (9 :: 8 word) = to_uint8 (clamp255 (rescale 255 b)) \<and>
         (8 :: 8 word) = to_uint8 (clamp255 (rescale 255 g)) \<and>
         (7 :: 8 word) = to_uint8 (clamp255 (rescale 255 r))"
    using pixel_bytes_blue_green_red
         [THEN conjunct2, THEN conjunct2,
          of "''P3 1 1 255 7 8 9''" "''P3''" "'' 1 1 255 7 8 9''" "''1''" "'' 1 255 7 8 9''"
             "''1''" "'' 255 7 8 9''" "''255''" "'' 7 8 9''" 255
             "\<lparr>width = 1, height = 1, pixels = [\<lparr>byte0 = 9, byte1 = 8, byte2 = 7, byte3 = 0\<rparr>]\<rparr>"]
       ts m ls
    by (simp add: numeral_2_eq_2)
  from L t m l p6 p3 ps t3 l3 k3 ts ls ks v c show ?thesis by simp
qed

section \<open>What every path keeps\<close>

text \<open>
  A load that fails returns no pixels, whatever it leaves in the dimensions; a load that
  succeeds returns positive dimensions and exactly width times height pixels; the size
  check refuses every header of more than 100,000,000 pixels on all three parsers; and
  the rescaling of the P3 loops is the truncating quotient as long as the product fits
  an \<^verbatim>\<open>int\<close>.
\<close>

lemma cleared_eq: "cleared img = new_Image"
  by (cases img) (simp add: cleared_def new_Image_def)

lemma p6_loop_failed:
  "p6_loop i n maxVal f img = Returns msg img' \<Longrightarrow> msg \<noteq> P6Loaded \<Longrightarrow> img' = new_Image"
proof (induction "n - i" arbitrary: i f img)
  case 0
  then show ?case by (simp add: p6_loop_done)
next
  case (Suc d)
  then have lt: "i < n" by simp
  show ?case
  proof (cases "read3 f")
    case None
    with lt Suc.prems show ?thesis by (simp add: p6_loop_short cleared_eq)
  next
    case (Some a)
    then obtain c0 c1 c2 f' where f: "f = c0 # c1 # c2 # f'"
      by (cases a) (auto simp: read3_Some)
    from Suc.hyps(2) have d: "d = n - (i + 1)" by simp
    from Suc.prems(1) lt Suc.hyps(1) [OF d _ Suc.prems(2)] show ?thesis
      by (simp add: f p6_loop_step)
  qed
qed

lemma p3_loop_failed:
  "p3_loop i n maxVal f img = Returns msg img' \<Longrightarrow> msg \<noteq> P3Loaded \<Longrightarrow> img' = new_Image"
proof (induction "n - i" arbitrary: i f img)
  case 0
  then show ?case by (simp add: p3_loop_done)
next
  case (Suc d)
  then have lt: "i < n" by simp
  from Suc.hyps(2) have d: "d = n - (i + 1)" by simp
  from Suc.prems lt Suc.hyps(1) [OF d _ Suc.prems(2)] show ?case
    by (subst (asm) p3_loop.simps)
       (auto simp: cleared_eq split: option.splits sum.splits prod.splits)
qed

lemma p3_string_loop_failed:
  "p3_string_loop i n maxVal f img = Returns msg img' \<Longrightarrow> msg \<noteq> P3Loaded \<Longrightarrow> img' = new_Image"
proof (induction "n - i" arbitrary: i f img)
  case 0
  then show ?case by (simp add: p3_string_loop_done)
next
  case (Suc d)
  then have lt: "i < n" by simp
  from Suc.hyps(2) have d: "d = n - (i + 1)" by simp
  from Suc.prems lt Suc.hyps(1) [OF d _ Suc.prems(2)] show ?case
    by (subst (asm) p3_string_loop.simps)
       (auto simp: cleared_eq split: option.splits sum.splits prod.splits)
qed

lemma load_p6_failed: "load_p6 f = Returns msg img \<Longrightarrow> msg \<noteq> P6Loaded \<Longrightarrow> pixels img = []"
  by (auto simp: load_p6_def Let_def new_Image_def dest: p6_loop_failed
      split: option.splits sum.splits if_splits prod.splits list.splits)

lemma load_p3_failed: "load_p3 f = Returns msg img \<Longrightarrow> msg \<noteq> P3Loaded \<Longrightarrow> pixels img = []"
  by (auto simp: load_p3_def Let_def new_Image_def dest: p3_loop_failed
      split: option.splits sum.splits if_splits prod.splits)

lemma load_text_failed: "load_text ss = Returns msg img \<Longrightarrow> msg \<noteq> P3Loaded \<Longrightarrow> pixels img = []"
  by (auto simp: load_text_def Let_def new_Image_def dest: p3_string_loop_failed
      split: option.splits sum.splits if_splits prod.splits)

lemma failed_load_has_no_pixels:
  "LoadPPM conv file_bytes = Returns msg img \<Longrightarrow> msg \<noteq> P3Loaded \<Longrightarrow> msg \<noteq> P6Loaded \<Longrightarrow>
     pixels img = []"
  by (auto simp: LoadPPM_def load_file_def Let_def new_Image_def
      dest: load_p6_failed load_p3_failed load_text_failed
      split: option.splits if_splits prod.splits)

lemma load_p6_dimensions:
  assumes "load_p6 f = Returns P6Loaded img"
  shows "0 < width img \<and> 0 < height img \<and> int (length (pixels img)) = width img * height img"
proof -
  from load_p6_loaded [OF assms] obtain wstr hstr body w h maxVal where
    wh: "stoi (normalizeToken wstr) = Inr w" "stoi (normalizeToken hstr) = Inr h" "0 < w" "0 < h"
    and run: "p6_loop 0 (mul_uint64 (uint64_of_int w) (uint64_of_int h)) maxVal body
       \<lparr>width = w, height = h,
          pixels = replicate (mul_uint64 (uint64_of_int w) (uint64_of_int h)) zero_pixel\<rparr>
       = Returns P6Loaded img"
    by blast
  from p6_loop_pixels [OF run] have "width img = w" "height img = h"
    "length (pixels img) = mul_uint64 (uint64_of_int w) (uint64_of_int h)"
    by simp_all
  moreover from stoi_range [OF wh(1)] stoi_range [OF wh(2)] wh(3,4)
  have "int (mul_uint64 (uint64_of_int w) (uint64_of_int h)) = w * h"
    by (intro pixel_count) simp_all
  ultimately show ?thesis using wh(3,4) by simp
qed

lemma load_p3_dimensions:
  assumes "load_p3 f = Returns P3Loaded img"
  shows "0 < width img \<and> 0 < height img \<and> int (length (pixels img)) = width img * height img"
proof -
  from load_p3_loaded [OF assms] obtain wstr hstr body w h maxVal where
    wh: "stoi (normalizeToken wstr) = Inr w" "stoi (normalizeToken hstr) = Inr h" "0 < w" "0 < h"
    and run: "p3_loop 0 (mul_uint64 (uint64_of_int w) (uint64_of_int h)) maxVal body
       \<lparr>width = w, height = h,
          pixels = replicate (mul_uint64 (uint64_of_int w) (uint64_of_int h)) zero_pixel\<rparr>
       = Returns P3Loaded img"
    by blast
  from p3_loop_pixels [OF run] have "width img = w" "height img = h"
    "length (pixels img) = mul_uint64 (uint64_of_int w) (uint64_of_int h)"
    by simp_all
  moreover from stoi_range [OF wh(1)] stoi_range [OF wh(2)] wh(3,4)
  have "int (mul_uint64 (uint64_of_int w) (uint64_of_int h)) = w * h"
    by (intro pixel_count) simp_all
  ultimately show ?thesis using wh(3,4) by simp
qed

lemma load_text_dimensions:
  assumes "load_text ss = Returns P3Loaded img"
  shows "0 < width img \<and> 0 < height img \<and> int (length (pixels img)) = width img * height img"
proof -
  from load_text_loaded [OF assms] obtain wstr hstr body w h maxVal where
    wh: "stoi (normalizeToken wstr) = Inr w" "stoi (normalizeToken hstr) = Inr h" "0 < w" "0 < h"
    and run: "p3_string_loop 0 (mul_uint64 (uint64_of_int w) (uint64_of_int h)) maxVal body
       \<lparr>width = w, height = h,
          pixels = replicate (mul_uint64 (uint64_of_int w) (uint64_of_int h)) zero_pixel\<rparr>
       = Returns P3Loaded img"
    by blast
  from p3_string_loop_pixels [OF run] have "width img = w" "height img = h"
    "length (pixels img) = mul_uint64 (uint64_of_int w) (uint64_of_int h)"
    by simp_all
  moreover from stoi_range [OF wh(1)] stoi_range [OF wh(2)] wh(3,4)
  have "int (mul_uint64 (uint64_of_int w) (uint64_of_int h)) = w * h"
    by (intro pixel_count) simp_all
  ultimately show ?thesis using wh(3,4) by simp
qed

lemma load_p6_not_P3Loaded: "load_p6 f \<noteq> Returns P3Loaded img"
  by (auto simp: load_p6_def Let_def dest: p6_loop_message
      split: option.splits sum.splits if_splits prod.splits list.splits)

lemma load_p3_not_P6Loaded: "load_p3 f \<noteq> Returns P6Loaded img"
  by (auto simp: load_p3_def Let_def dest: p3_loop_message
      split: option.splits sum.splits if_splits prod.splits)

lemma loaded_image_is_full:
  assumes "LoadPPM conv file_bytes = Returns msg img" and "msg = P3Loaded \<or> msg = P6Loaded"
  shows "0 < width img \<and> 0 < height img \<and> int (length (pixels img)) = width img * height img"
proof (cases file_bytes)
  case None
  with assms show ?thesis by (auto simp: LoadPPM_def)
next
  case (Some raw)
  show ?thesis
  proof (cases "decode_text conv raw")
    case (Some utf8)
    with assms \<open>file_bytes = Some raw\<close> have "load_text utf8 = Returns P3Loaded img"
      by (auto simp: LoadPPM_def load_text_not_P6Loaded)
    then show ?thesis by (rule load_text_dimensions)
  next
    case None
    with assms \<open>file_bytes = Some raw\<close> have "load_file raw = Returns msg img"
      by (simp add: LoadPPM_def)
    with assms(2) consider rest where "load_p6 rest = Returns P6Loaded img"
      | rest where "load_p3 rest = Returns P3Loaded img"
      by (auto simp: load_file_def Let_def load_p6_not_P3Loaded load_p3_not_P6Loaded
          split: option.splits prod.splits if_splits)
    then show ?thesis
      by cases (simp_all add: load_p6_dimensions load_p3_dimensions)
  qed
qed

lemma size_cap:
  assumes "stoi (normalizeToken wtok) = Inr w" and "stoi (normalizeToken htok) = Inr h"
    and "stoi (normalizeToken mtok) = Inr maxVal" and "0 < w" and "0 < h"
    and "100000000 < w * h"
  shows "nextToken f = Some (wtok, f1) \<Longrightarrow> nextToken f1 = Some (htok, f2) \<Longrightarrow>
           nextToken f2 = Some (mtok, f3) \<Longrightarrow>
           load_p6 f = Returns TooLarge \<lparr>width = w, height = h, pixels = []\<rparr>
           \<and> load_p3 f = Returns TooLarge \<lparr>width = 0, height = 0, pixels = []\<rparr>"
    and "nextTokenStr ss = Some (''P3'', ss1) \<Longrightarrow> nextTokenStr ss1 = Some (wtok, ss2) \<Longrightarrow>
           nextTokenStr ss2 = Some (htok, ss3) \<Longrightarrow> nextTokenStr ss3 = Some (mtok, ss4) \<Longrightarrow>
           load_text ss = Returns TooLarge \<lparr>width = w, height = h, pixels = []\<rparr>"
proof -
  from stoi_range [OF assms(1)] stoi_range [OF assms(2)] assms(4,5)
  have "int (mul_uint64 (uint64_of_int w) (uint64_of_int h)) = w * h"
    by (intro pixel_count) simp_all
  with assms(6) have big: "100000000 < mul_uint64 (uint64_of_int w) (uint64_of_int h)"
    by linarith
  have P3: "normalizeToken ''P3'' = ''P3''"
    by (simp add: normalizeToken_def normalize_loop.simps strip_step_def byte_def)
  show "nextToken f = Some (wtok, f1) \<Longrightarrow> nextToken f1 = Some (htok, f2) \<Longrightarrow>
           nextToken f2 = Some (mtok, f3) \<Longrightarrow>
           load_p6 f = Returns TooLarge \<lparr>width = w, height = h, pixels = []\<rparr>
           \<and> load_p3 f = Returns TooLarge \<lparr>width = 0, height = 0, pixels = []\<rparr>"
    using assms(1-5) big by (simp add: load_p6_def load_p3_def new_Image_def)
  show "nextTokenStr ss = Some (''P3'', ss1) \<Longrightarrow> nextTokenStr ss1 = Some (wtok, ss2) \<Longrightarrow>
           nextTokenStr ss2 = Some (htok, ss3) \<Longrightarrow> nextTokenStr ss3 = Some (mtok, ss4) \<Longrightarrow>
           load_text ss = Returns TooLarge \<lparr>width = w, height = h, pixels = []\<rparr>"
    using assms(1-5) big by (simp add: load_text_def new_Image_def P3)
qed

lemma wrap_int32_id: "INT_MIN \<le> x \<Longrightarrow> x \<le> INT_MAX \<Longrightarrow> wrap_int32 x = x"
  by (simp add: wrap_int32_def INT_MIN_def INT_MAX_def)

lemma rescale_in_range:
  "- 8421504 \<le> v \<Longrightarrow> v \<le> 8421504 \<Longrightarrow>
     rescale maxVal v = (if maxVal \<noteq> 255 \<and> 0 < maxVal then div_int (v * 255) maxVal else v)"
  by (simp add: rescale_def mul_int_def wrap_int32_id INT_MIN_def INT_MAX_def)

lemma div_int_nonneg: "0 \<le> a \<Longrightarrow> 0 < b \<Longrightarrow> div_int a b = a div b"
  by (simp add: div_int_def)

lemma uint_to_uint8_clamp255: "uint (to_uint8 (clamp255 v)) = clamp255 v"
  by (simp add: to_uint8_def clamp255_def uint_word_of_int min_def max_def)

lemma uint_to_uint8: "uint (to_uint8 v) = v mod 256"
  by (simp add: to_uint8_def uint_word_of_int)

section \<open>Numeric prefixes in the loader\<close>








section \<open>Where the loader departs from its specification\<close>

text \<open>
  C1. The specification has every failed load return empty pixel storage together with
  width 0 and height 0. The loader clears the dimensions in its pixel loops and, in the
  P3 branch of the file-stream parser, after the checks of the dimensions and of the
  size; the same checks of the binary branch and of the text parser, the conversion
  failures after the width was stored, and the missing separator byte return the image
  with the dimensions read so far and no pixels.
\<close>

theorem failed_load_keeps_dimensions:
  "LoadPPM conv (Some ''P6\<newline>2 2\<newline>255'')
     = Returns EofBeforePixelData \<lparr>width = 2, height = 2, pixels = []\<rparr>
   \<and> LoadPPM conv (Some ''P6\<newline>2 2\<newline>x\<newline>abcdefghijkl'')
     = Returns InvalidMaxVal \<lparr>width = 2, height = 2, pixels = []\<rparr>
   \<and> LoadPPM conv (Some ''P3\<newline>5 x\<newline>255\<newline>'')
     = Returns InvalidWidthHeight \<lparr>width = 5, height = 0, pixels = []\<rparr>"
  by (simp add: loader_eval)


text \<open>
  C2. The specification clamps the rescaled channel on both paths. The two P3 loops
  clamp; the binary loop stores the rescaled value as it is, and the cast to a byte wraps
  it: with \<^verbatim>\<open>maxValue\<close> 100 the byte 200 becomes \<open>510 mod 256 = 254\<close>, where the
  clamp gives 255 (as the P3 loop does for the same numbers). The example of the
  specification, 50 of 100, stores 127.
\<close>

theorem p6_channel_wraps:
  "LoadPPM conv (Some (''P6\<newline>1 1\<newline>100\<newline>'' @ [CHR 0xC8, CHR 0xC8, CHR 0xC8]))
     = Returns P6Loaded
         \<lparr>width = 1, height = 1, pixels = [\<lparr>byte0 = 254, byte1 = 254, byte2 = 254, byte3 = 0\<rparr>]\<rparr>
   \<and> clamp255 (div_int (mul_int 200 255) 100) = 255
   \<and> LoadPPM conv (Some ''P3\<newline>1 1\<newline>100\<newline>200 200 200\<newline>'')
     = Returns P3Loaded
         \<lparr>width = 1, height = 1, pixels = [\<lparr>byte0 = 255, byte1 = 255, byte2 = 255, byte3 = 0\<rparr>]\<rparr>
   \<and> LoadPPM conv (Some ''P3\<newline>1 1\<newline>100\<newline>50 50 50\<newline>'')
     = Returns P3Loaded
         \<lparr>width = 1, height = 1, pixels = [\<lparr>byte0 = 127, byte1 = 127, byte2 = 127, byte3 = 0\<rparr>]\<rparr>"
  by (simp add: loader_eval)


text \<open>
  C4. The specification has no exception leave the loader. In the pixel loop of the
  text parser the three conversions stand outside any \<^verbatim>\<open>try\<close>: a pixel token that is
  no number ends the call with \<^verbatim>\<open>std::invalid_argument\<close>. The file-stream parser
  catches the same failure and returns the empty image.
\<close>

theorem text_parser_pixel_token_throws:
  "LoadPPM conv (Some (CHR 0xEF # CHR 0xBB # CHR 0xBF # ''P3\<newline>1 1\<newline>255\<newline>x 0 0\<newline>''))
     = Throws invalid_argument
   \<and> LoadPPM conv (Some ''P3\<newline>1 1\<newline>255\<newline>x 0 0\<newline>'')
     = Returns InvalidPixelToken \<lparr>width = 0, height = 0, pixels = []\<rparr>"
  by (simp add: loader_eval)


text \<open>
  C5. The specification has the two token readers agree on every input. They differ on
  a \<^verbatim>\<open>#\<close> inside a token: the reader of the file stream ends the token there and
  skips the rest of the line as a comment, the reader of the text keeps the \<^verbatim>\<open>#\<close>
  and what follows in the token. The same document then loads behind a UTF-8 mark and
  is truncated without it.
\<close>

theorem token_readers_differ:
  "nextTokenStr ''12#x 7'' = Some (''12#x'', '' 7'')
   \<and> nextToken ''12#x 7'' = Some (''12'', ''#x 7'')
   \<and> LoadPPM conv (Some (CHR 0xEF # CHR 0xBB # CHR 0xBF # ''P3 1 1 255 12#x 7 8 9''))
     = Returns P3Loaded
         \<lparr>width = 1, height = 1, pixels = [\<lparr>byte0 = 8, byte1 = 7, byte2 = 12, byte3 = 0\<rparr>]\<rparr>
   \<and> LoadPPM conv (Some ''P3 1 1 255 12#x 7 8 9'')
     = Returns EndOfFilePixels \<lparr>width = 0, height = 0, pixels = []\<rparr>"
  by (simp add: loader_eval)


text \<open>
  C6. The specification has a header of more than 100,000,000 pixels yield the empty
  image with width 0 and height 0. All three parsers refuse 20000 by 15000 (300,000,000
  pixels) and return no pixels, but only the P3 branch of the file-stream parser resets
  the dimensions; the binary branch and the text parser return them as read.
\<close>

theorem size_cap_keeps_dimensions:
  "LoadPPM conv (Some ''P6\<newline>20000 15000\<newline>255\<newline>abc'')
     = Returns TooLarge \<lparr>width = 20000, height = 15000, pixels = []\<rparr>
   \<and> LoadPPM conv (Some (CHR 0xEF # CHR 0xBB # CHR 0xBF # ''P3\<newline>20000 15000\<newline>255\<newline>1 2 3''))
     = Returns TooLarge \<lparr>width = 20000, height = 15000, pixels = []\<rparr>
   \<and> LoadPPM conv (Some ''P3\<newline>20000 15000\<newline>255\<newline>1 2 3'')
     = Returns TooLarge \<lparr>width = 0, height = 0, pixels = []\<rparr>"
  by (simp add: loader_eval)

end
